theory Spec2Isabelle
  imports Main "HOL-Library.Word" "HOL-Library.Signed_Division"
begin

section \<open>The Prombench scaler (tools/scaler/scaler.go)\<close>

subsection \<open>Machine integers and strings\<close>

text \<open>
  Go's \<^verbatim>\<open>int32\<close> is a 32-bit word read in two's complement: \<open>+\<close> wraps around, the
  comparisons of the source are the signed ones (\<open>\<le>s\<close>, \<open><s\<close>), and \<^verbatim>\<open>/\<close> truncates
  towards zero. \<^verbatim>\<open>time.Duration\<close> is a 64-bit count of nanoseconds.
\<close>

type_synonym int32 = "32 word"
type_synonym Duration = "64 word"

definition int32_quo :: "int32 \<Rightarrow> int32 \<Rightarrow> int32" where
  "int32_quo a b = word_of_int (sint a sdiv sint b)"

text \<open>
  \<^verbatim>\<open>strings.ToLower\<close>, on the bytes of the string. Go lower-cases Unicode letters too;
  the only non-ASCII letters whose lower case is an ASCII letter are U+0130 (to \<open>i\<close>) and
  U+212A (to \<open>k\<close>), neither of which occurs in \<open>deployment\<close>, so the comparison of
  line 59 has the same outcome under both readings.
\<close>

definition toLowerChar :: "char \<Rightarrow> char" where
  "toLowerChar c =
     (let n = (of_char c :: nat) in if 65 \<le> n \<and> n \<le> 90 then char_of (n + 32) else c)"

definition ToLower :: "string \<Rightarrow> string" where
  "ToLower str = map toLowerChar str"

subsection \<open>The target set\<close>

text \<open>
  The types \<^verbatim>\<open>k8s.Resource\<close> and \<^verbatim>\<open>k8s.K8s\<close> of package \<^verbatim>\<open>pkg/provider/k8s\<close>
  are taken from their uses in \<^verbatim>\<open>scaler.go\<close> and from the data model of the
  specification.
\<close>

text \<open>
  The three \<^verbatim>\<open>int32\<close> variables whose address \<^verbatim>\<open>scale\<close> passes to
  \<^verbatim>\<open>updateReplicas\<close>: the fields \<^verbatim>\<open>s.max\<close> and \<^verbatim>\<open>s.min\<close> (lines 78 and 79) and
  the local variable \<^verbatim>\<open>numberOfResources\<close> (line 122). A pointer of type
  \<^verbatim>\<open>*int32\<close> either points to a cell no one else refers to, which is as good as the
  value in it, or to one of these variables.
\<close>

datatype address = Addr_max | Addr_min | Addr_numberOfResources

datatype replicas_ptr = Own int32 | At address

text \<open>
  The Go type of a \<^verbatim>\<open>runtime.Object\<close>, as far as the type assertion of line 60 tells
  types apart, and the run-time panic of a failed assertion.
\<close>

datatype go_type = AppsV1_Deployment | Other_type

datatype panic = InterfaceConversion

text \<open>
  Modelled from the spec: the objects of a \<^verbatim>\<open>k8s.Resource\<close> and what
  \<^verbatim>\<open>GetResources\<close> returns. An object is its kind
  (\<^verbatim>\<open>GetObjectKind().GroupVersionKind().Kind\<close>), its Go type, its replica field
  (\<^verbatim>\<open>Spec.Replicas\<close>, a pointer that may be nil) and all its other fields, of an
  arbitrary type \<open>'a\<close>. The specification does not say which Go types the loader
  produces for which kind, so every combination is a target set. An object inside the
  client holds a pointer (\<open>'p\<close> is \<open>replicas_ptr\<close>); a deep copy holds cells of its own,
  that is, the value (\<open>'p\<close> is \<open>int32\<close>). \<^verbatim>\<open>GetResources\<close> returns the resources the
  client holds, sharing the objects with the client: a write to an object reached
  through it is a write to the client's target set.
\<close>

record ('p, 'a) object =
  kind :: string
  goType :: go_type
  replicas :: "'p option"
  body :: 'a

record ('p, 'a) Resource =
  FileName :: string
  Objects :: "('p, 'a) object list"

text \<open>
  The \<^verbatim>\<open>scale\<close> struct. Of the client only the loaded resources matter here, so
  \<open>k8sClient\<close> holds them. The fields \<^verbatim>\<open>min\<close> and \<^verbatim>\<open>max\<close> are \<open>min_s\<close> and
  \<open>max_s\<close>.
\<close>

record 'a scale =
  k8sClient :: "(replicas_ptr, 'a) Resource list"
  min_s :: int32
  max_s :: int32
  interval :: Duration
  patternName :: string
  scalingFactor :: int32

text \<open>
  Reading memory: the value at an address, given the scaler and the current value of
  \<^verbatim>\<open>numberOfResources\<close> (\<open>None\<close> where that variable is not declared), and the value
  a pointer leads to.
\<close>

type_synonym memory = "address \<Rightarrow> int32 option"

definition load :: "'a scale \<Rightarrow> int32 option \<Rightarrow> memory" where
  "load s numberOfResources a =
     (case a of
        Addr_max \<Rightarrow> Some (max_s s)
      | Addr_min \<Rightarrow> Some (min_s s)
      | Addr_numberOfResources \<Rightarrow> numberOfResources)"

definition deref :: "memory \<Rightarrow> replicas_ptr \<Rightarrow> int32 option" where
  "deref mem p = (case p of Own v \<Rightarrow> Some v | At a \<Rightarrow> mem a)"

subsection \<open>updateReplicas\<close>

text \<open>
  \<^verbatim>\<open>DeepCopyObject\<close> gives an object equal to its receiver that shares no memory with
  it: the replica field of the copy is a new cell with the value the receiver's pointer
  leads to at that moment.
\<close>

definition DeepCopyObject :: "memory \<Rightarrow> (replicas_ptr, 'a) object \<Rightarrow> (int32, 'a) object" where
  "DeepCopyObject mem req =
     \<lparr>kind = kind req, goType = goType req,
      replicas = Option.bind (replicas req) (deref mem), body = body req\<rparr>"

text \<open>
  The inner loop of \<^verbatim>\<open>updateReplicas\<close> (lines 58 to 64) over the objects of one
  resource, with the pointer \<open>ptr\<close> it was called with. On an object whose kind is
  \<open>deployment\<close> the type assertion of line 60 either succeeds, and line 61 stores the
  pointer itself in the object of the client, or panics, with the objects before it
  already written. The function returns the objects as they are left in the client, and
  the slice \<^verbatim>\<open>k8sObjects\<close> of deep copies or the panic.
\<close>

fun updateObjects ::
  "memory \<Rightarrow> address \<Rightarrow> (replicas_ptr, 'a) object list \<Rightarrow>
     (replicas_ptr, 'a) object list \<times> (panic + (int32, 'a) object list)" where
  "updateObjects mem ptr [] = ([], Inr [])"
| "updateObjects mem ptr (resource # rest) =
     (if ToLower (kind resource) = ''deployment'' then
        (if goType resource = AppsV1_Deployment then
           (let req = resource\<lparr>replicas := Some (At ptr)\<rparr>;
                (rest', result) = updateObjects mem ptr rest
            in (req # rest',
                case result of
                  Inl e \<Rightarrow> Inl e
                | Inr k8sObjects \<Rightarrow> Inr (DeepCopyObject mem req # k8sObjects)))
         else (resource # rest, Inl InterfaceConversion))
      else (let (rest', result) = updateObjects mem ptr rest
            in (resource # rest', result)))"

text \<open>
  The outer loop (lines 55 to 68): a resource none of whose objects is a deployment
  contributes nothing to \<^verbatim>\<open>k8sResource\<close>. A panic inside a resource leaves the
  resources after it untouched.
\<close>

fun updateResources ::
  "memory \<Rightarrow> address \<Rightarrow> (replicas_ptr, 'a) Resource list \<Rightarrow>
     (replicas_ptr, 'a) Resource list \<times> (panic + (int32, 'a) Resource list)" where
  "updateResources mem ptr [] = ([], Inr [])"
| "updateResources mem ptr (deployment # rest) =
     (let (objs', result) = updateObjects mem ptr (Objects deployment) in
      case result of
        Inl e \<Rightarrow> (deployment\<lparr>Objects := objs'\<rparr> # rest, Inl e)
      | Inr k8sObjects \<Rightarrow>
          (let (rest', result') = updateResources mem ptr rest
           in (deployment\<lparr>Objects := objs'\<rparr> # rest',
               case result' of
                 Inl e \<Rightarrow> Inl e
               | Inr k8sResource \<Rightarrow>
                   Inr (if length k8sObjects > 0
                        then \<lparr>FileName = FileName deployment, Objects = k8sObjects\<rparr> #
                             k8sResource
                        else k8sResource))))"

text \<open>
  \<^verbatim>\<open>updateReplicas\<close> with its argument \<open>ptr\<close>; \<open>numberOfResources\<close> is the current
  value of that variable of the caller, if it is declared.
\<close>

definition updateReplicas ::
  "'a scale \<Rightarrow> int32 option \<Rightarrow> address \<Rightarrow> 'a scale \<times> (panic + (int32, 'a) Resource list)" where
  "updateReplicas s numberOfResources ptr =
     (let (rs', result) = updateResources (load s numberOfResources) ptr (k8sClient s)
      in (s\<lparr>k8sClient := rs'\<rparr>, result))"

subsection \<open>What a run does\<close>

text \<open>
  The observable actions of \<^verbatim>\<open>scale\<close>, in the order they happen: the lines written
  with \<^verbatim>\<open>log.Printf\<close>, the calls of \<^verbatim>\<open>ResourceApply\<close> with their argument, the
  line written to standard error when such a call fails, and the calls of
  \<^verbatim>\<open>time.Sleep\<close>.
\<close>

datatype log_line =
    AutoScalePattern string
  | StartingBurst int32 int32 Duration
  | StartingStep int32 int32 Duration int32
  | FactorGeMax int32 int32
  | FactorIsZero
  | UpdatingFactor int32
  | ScalingTo int32
  | InvalidPattern string

datatype 'a event =
    Log log_line
  | ResourceApply "(int32, 'a) Resource list"
  | Stderr string
  | Sleep Duration

text \<open>
  Modelled from the spec: \<^verbatim>\<open>ResourceApply\<close> of \<^verbatim>\<open>pkg/provider/k8s\<close>, which sends
  the objects to the remote cluster and returns an error or success. The remote side is
  a parameter of the model: \<open>api k\<close> is the error of the \<open>k\<close>-th call, \<open>None\<close> when it
  succeeds.
\<close>

type_synonym remote = "nat \<Rightarrow> string option"

definition alwaysOk :: remote where
  "alwaysOk k = None"

text \<open>Lines 83 to 85, 90 to 92 and 123 to 125: a failed call is reported, nothing else.\<close>

definition report :: "string option \<Rightarrow> 'a event list" where
  "report err =
     (case err of None \<Rightarrow> [] | Some e \<Rightarrow> [Stderr (''Error scaling deployment: '' @ e)])"

text \<open>
  Neither loop of \<^verbatim>\<open>scale\<close> ends. The model runs a loop for a given number of
  iterations and returns the actions up to there; a property of the endless run is a
  property of every such prefix. A run has left the process through \<^verbatim>\<open>os.Exit\<close>, or
  has died of a panic, or is still inside its loop.
\<close>

datatype status = Exit nat | Panicked panic | Looping

text \<open>The loop of the burst pattern (lines 81 to 95); \<open>k\<close> counts the calls made so far.\<close>

fun burstLoop ::
  "remote \<Rightarrow> 'a scale \<Rightarrow> (int32, 'a) Resource list \<Rightarrow> (int32, 'a) Resource list \<Rightarrow>
     nat \<Rightarrow> nat \<Rightarrow> 'a event list"
where
  "burstLoop api s maxResourceObjects minResourceObjects k 0 = []"
| "burstLoop api s maxResourceObjects minResourceObjects k (Suc n) =
     [Log (ScalingTo (max_s s)), ResourceApply maxResourceObjects] @ report (api k) @
     [Sleep (interval s)] @
     [Log (ScalingTo (min_s s)), ResourceApply minResourceObjects] @ report (api (Suc k)) @
     [Sleep (interval s)] @
     burstLoop api s maxResourceObjects minResourceObjects (Suc (Suc k)) n"

text \<open>Lines 100 to 114: the scaling factor of the step pattern.\<close>

definition updateScalingFactor :: "'a scale \<Rightarrow> 'a scale \<times> 'a event list" where
  "updateScalingFactor s =
     (let ge = (max_s s \<le>s scalingFactor s);
          zero = (scalingFactor s = 0);
          logs = (if ge then [Log (FactorGeMax (scalingFactor s) (max_s s))] else []) @
                 (if zero then [Log FactorIsZero] else [])
      in if ge \<or> zero
         then (let s' = s\<lparr>scalingFactor := int32_quo (max_s s) 10\<rparr>
               in (s', logs @ [Log (UpdatingFactor (scalingFactor s'))]))
         else (s, logs))"

text \<open>Lines 129 to 132: the next value of \<^verbatim>\<open>numberOfResources\<close>.\<close>

definition nextNumberOfResources :: "'a scale \<Rightarrow> int32 \<Rightarrow> int32" where
  "nextNumberOfResources s numberOfResources =
     (let n' = numberOfResources + scalingFactor s
      in if max_s s <s n' then max_s s else n')"

text \<open>
  The loop of the step pattern (lines 119 to 133). Each iteration rewrites the target set
  of the client through \<open>updateReplicas\<close>, so the loop returns the client as well, and
  with it the status and the value of \<^verbatim>\<open>numberOfResources\<close> it has reached. A panic
  of \<open>updateReplicas\<close> comes after the line of line 120 and before the call of line 123.
\<close>

fun stepLoop ::
  "remote \<Rightarrow> 'a scale \<Rightarrow> int32 \<Rightarrow> nat \<Rightarrow> nat \<Rightarrow> 'a scale \<times> 'a event list \<times> status \<times> int32"
where
  "stepLoop api s numberOfResources k 0 = (s, [], Looping, numberOfResources)"
| "stepLoop api s numberOfResources k (Suc n) =
     (let (s1, result) = updateReplicas s (Some numberOfResources) Addr_numberOfResources in
      case result of
        Inl e \<Rightarrow> (s1, [Log (ScalingTo numberOfResources)], Panicked e, numberOfResources)
      | Inr resourceObjects \<Rightarrow>
          (let (s2, rest, st, numberOfResources') =
                 stepLoop api s1 (nextNumberOfResources s1 numberOfResources) (Suc k) n
           in (s2,
               [Log (ScalingTo numberOfResources), ResourceApply resourceObjects] @
               report (api k) @ [Sleep (interval s)] @ rest,
               st, numberOfResources')))"

text \<open>
  \<^verbatim>\<open>scale\<close> (lines 72 to 141), run for \<open>n\<close> iterations of its loop: the scaler as it is
  left, the actions, the status, and the value of \<^verbatim>\<open>numberOfResources\<close> where that
  variable is declared.
\<close>

definition scale ::
  "remote \<Rightarrow> 'a scale \<Rightarrow> nat \<Rightarrow> 'a scale \<times> 'a event list \<times> status \<times> int32 option" where
  "scale api s n =
     (if patternName s = ''burst'' then
        (let start = [Log (AutoScalePattern (patternName s)),
                      Log (StartingBurst (max_s s) (min_s s) (interval s))];
             (s1, result1) = updateReplicas s None Addr_max in
         case result1 of
           Inl e \<Rightarrow> (s1, start, Panicked e, None)
         | Inr maxResourceObjects \<Rightarrow>
             (let (s2, result2) = updateReplicas s1 None Addr_min in
              case result2 of
                Inl e \<Rightarrow> (s2, start, Panicked e, None)
              | Inr minResourceObjects \<Rightarrow>
                  (s2, start @ burstLoop api s2 maxResourceObjects minResourceObjects 0 n,
                   Looping, None)))
      else if patternName s = ''step'' then
        (let (s1, logs) = updateScalingFactor s;
             (s2, rest, st, numberOfResources) = stepLoop api s1 (min_s s1) 0 n
         in (s2,
             [Log (AutoScalePattern (patternName s))] @ logs @
             [Log (StartingStep (max_s s1) (min_s s1) (interval s1) (scalingFactor s1))] @
             rest,
             st, Some numberOfResources))
      else (s, [Log (InvalidPattern (patternName s))], Exit 2, None))"

subsection \<open>Reading a run\<close>

text \<open>The arguments of the calls of \<^verbatim>\<open>ResourceApply\<close>, in order.\<close>

fun applied :: "'a event list \<Rightarrow> (int32, 'a) Resource list list" where
  "applied [] = []"
| "applied (ResourceApply rs # es) = rs # applied es"
| "applied (e # es) = applied es"

text \<open>The replica fields of the objects of a list of resources.\<close>

definition replicaCounts :: "('p, 'a) Resource list \<Rightarrow> 'p option list" where
  "replicaCounts rs = concat (map (\<lambda>r. map replicas (Objects r)) rs)"

text \<open>The counts announced by the lines \<^verbatim>\<open>Scaling Deployment to %d\<close>, in order.\<close>

fun announced :: "'a event list \<Rightarrow> int32 list" where
  "announced [] = []"
| "announced (Log (ScalingTo c) # es) = c # announced es"
| "announced (e # es) = announced es"

text \<open>The lines written to standard error by failed calls.\<close>

fun failures :: "'a event list \<Rightarrow> string list" where
  "failures [] = []"
| "failures (Stderr e # es) = e # failures es"
| "failures (e # es) = failures es"

text \<open>
  An object counts as a deployment when the test of line 59 succeeds on it; the
  deployments of a target set, in order.
\<close>

definition isDeployment :: "('p, 'a) object \<Rightarrow> bool" where
  "isDeployment ob \<longleftrightarrow> ToLower (kind ob) = ''deployment''"

definition deployments :: "('p, 'a) Resource list \<Rightarrow> ('p, 'a) object list" where
  "deployments rs = filter isDeployment (concat (map Objects rs))"

text \<open>
  The type assertion of line 60 succeeds on every object of a target set that reaches
  it: each object whose kind is \<open>deployment\<close> is a \<^verbatim>\<open>*appsV1.Deployment\<close>.
\<close>

definition typedObject :: "('p, 'a) object \<Rightarrow> bool" where
  "typedObject ob \<longleftrightarrow> (if isDeployment ob then goType ob = AppsV1_Deployment else True)"

definition typed :: "('p, 'a) Resource list \<Rightarrow> bool" where
  "typed rs \<longleftrightarrow> list_all (\<lambda>d. list_all typedObject (Objects d)) rs"

text \<open>
  A deep copy of an object taken after its replica field has been pointed to a variable
  holding \<open>v\<close> (\<open>None\<close> if there is no such variable), and the replica fields of the
  deployments of the client read through memory.
\<close>

definition snapshot :: "int32 option \<Rightarrow> (replicas_ptr, 'a) object \<Rightarrow> (int32, 'a) object" where
  "snapshot v ob = \<lparr>kind = kind ob, goType = goType ob, replicas = v, body = body ob\<rparr>"

definition heldReplicas :: "'a scale \<Rightarrow> int32 option \<Rightarrow> int32 option list" where
  "heldReplicas s numberOfResources =
     map (\<lambda>ob. Option.bind (replicas ob) (deref (load s numberOfResources)))
       (deployments (k8sClient s))"

text \<open>
  What a call of \<open>updateReplicas\<close> that does not panic is to do, in the words of the
  specification: in the client, the replica field of every deployment points to the
  variable given; the result holds, for each file with a deployment, the copies of its
  deployments and nothing else.
\<close>

definition pointTo ::
  "address \<Rightarrow> (replicas_ptr, 'a) Resource list \<Rightarrow> (replicas_ptr, 'a) Resource list" where
  "pointTo ptr rs =
     map (\<lambda>d. d\<lparr>Objects :=
                 map (\<lambda>ob. if isDeployment ob then ob\<lparr>replicas := Some (At ptr)\<rparr> else ob)
                   (Objects d)\<rparr>)
       rs"

definition snapshots ::
  "int32 option \<Rightarrow> (replicas_ptr, 'a) Resource list \<Rightarrow> (int32, 'a) Resource list" where
  "snapshots v rs =
     map (\<lambda>d. \<lparr>FileName = FileName d,
                Objects = map (snapshot v) (filter isDeployment (Objects d))\<rparr>)
       (filter (\<lambda>d. filter isDeployment (Objects d) \<noteq> []) rs)"

text \<open>
  A target set with the replica field of every deployment blanked out: two target sets
  with the same image agree on everything but those fields.
\<close>

definition eraseReplicas :: "('p, 'a) Resource list \<Rightarrow> ('p, 'a) Resource list" where
  "eraseReplicas rs =
     map (\<lambda>d. d\<lparr>Objects :=
                 map (\<lambda>ob. if isDeployment ob then ob\<lparr>replicas := None\<rparr> else ob) (Objects d)\<rparr>)
       rs"

text \<open>
  The same, object by object: the resources correspond one to one with the same file
  names, their objects correspond one to one with the same kind, the same Go type and
  the same other fields, and an object that is not a deployment is the same object.
\<close>

definition sameButReplicas ::
  "('p, 'a) Resource list \<Rightarrow> ('p, 'a) Resource list \<Rightarrow> bool" where
  "sameButReplicas rs rs' \<longleftrightarrow>
     list_all2
       (\<lambda>d d'. FileName d' = FileName d \<and>
          list_all2
            (\<lambda>ob ob'. kind ob' = kind ob \<and> goType ob' = goType ob \<and> body ob' = body ob \<and>
               (if isDeployment ob then True else ob' = ob))
            (Objects d) (Objects d'))
       rs rs'"

text \<open>The actions of a run other than the lines written for failed calls.\<close>

fun withoutFailures :: "'a event list \<Rightarrow> 'a event list" where
  "withoutFailures [] = []"
| "withoutFailures (Stderr e # es) = withoutFailures es"
| "withoutFailures (e # es) = e # withoutFailures es"

text \<open>The pauses of a run, in order.\<close>

fun sleeps :: "'a event list \<Rightarrow> Duration list" where
  "sleeps [] = []"
| "sleeps (Sleep d # es) = d # sleeps es"
| "sleeps (e # es) = sleeps es"

text \<open>
  For each call of \<^verbatim>\<open>ResourceApply\<close>, in order, the line written to standard error
  right after it, if there is one.
\<close>

fun outcomes :: "'a event list \<Rightarrow> string option list" where
  "outcomes [] = []"
| "outcomes (ResourceApply rs # Stderr e # es) = Some e # outcomes es"
| "outcomes (ResourceApply rs # es) = None # outcomes es"
| "outcomes (e # es) = outcomes es"

text \<open>The four parts of what \<open>scale\<close> returns.\<close>

abbreviation client :: "'a scale \<times> 'a event list \<times> status \<times> int32 option \<Rightarrow> 'a scale" where
  "client run \<equiv> fst run"

abbreviation actions ::
  "'a scale \<times> 'a event list \<times> status \<times> int32 option \<Rightarrow> 'a event list" where
  "actions run \<equiv> fst (snd run)"

abbreviation status_of :: "'a scale \<times> 'a event list \<times> status \<times> int32 option \<Rightarrow> status" where
  "status_of run \<equiv> fst (snd (snd run))"

abbreviation local_of ::
  "'a scale \<times> 'a event list \<times> status \<times> int32 option \<Rightarrow> int32 option" where
  "local_of run \<equiv> snd (snd (snd run))"

subsection \<open>Sample inputs\<close>

text \<open>
  A target set of three files: a deployment next to a service, a file without any
  deployment, and a deployment whose kind is written in lower case and whose replica
  field is nil.
\<close>

definition sampleSet :: "(replicas_ptr, unit) Resource list" where
  "sampleSet =
     [\<lparr>FileName = ''a.yaml'',
       Objects = [\<lparr>kind = ''Deployment'', goType = AppsV1_Deployment,
                    replicas = Some (Own 3), body = ()\<rparr>,
                  \<lparr>kind = ''Service'', goType = Other_type, replicas = None, body = ()\<rparr>]\<rparr>,
      \<lparr>FileName = ''b.yaml'',
       Objects = [\<lparr>kind = ''ConfigMap'', goType = Other_type, replicas = None, body = ()\<rparr>]\<rparr>,
      \<lparr>FileName = ''c.yaml'',
       Objects = [\<lparr>kind = ''deployment'', goType = AppsV1_Deployment,
                    replicas = None, body = ()\<rparr>]\<rparr>]"

text \<open>
  The same target set with one more file, whose object has the kind \<open>Deployment\<close> but
  is not a \<^verbatim>\<open>*appsV1.Deployment\<close> (a deployment of another API group or version).
\<close>

definition mixedSet :: "(replicas_ptr, unit) Resource list" where
  "mixedSet =
     sampleSet @
     [\<lparr>FileName = ''d.yaml'',
       Objects = [\<lparr>kind = ''Deployment'', goType = Other_type,
                    replicas = Some (Own 2), body = ()\<rparr>]\<rparr>]"

text \<open>The command line \<^verbatim>\<open>scale -f ... max min 1s patternName scalingFactor\<close>.\<close>

definition commandOn ::
  "(replicas_ptr, unit) Resource list \<Rightarrow> int32 \<Rightarrow> int32 \<Rightarrow> string \<Rightarrow> int32 \<Rightarrow> unit scale" where
  "commandOn rs mx mn pattern factor =
     \<lparr>k8sClient = rs, min_s = mn, max_s = mx, interval = 1000000000,
      patternName = pattern, scalingFactor = factor\<rparr>"

definition command :: "int32 \<Rightarrow> int32 \<Rightarrow> string \<Rightarrow> int32 \<Rightarrow> unit scale" where
  "command mx mn pattern factor = commandOn sampleSet mx mn pattern factor"

text \<open>A remote side whose second call fails.\<close>

definition flaky :: remote where
  "flaky k = (if k = 1 then Some ''timeout'' else None)"

section \<open>Auxiliary facts\<close>

subsection \<open>updateReplicas and what it is to do\<close>

lemma isDeployment_replicas [simp]: "isDeployment (ob\<lparr>replicas := v\<rparr>) = isDeployment ob"
  by (simp add: isDeployment_def)

lemma isDeployment_snapshot [simp]: "isDeployment (snapshot v ob) = isDeployment ob"
  by (simp add: isDeployment_def snapshot_def)

lemma typedObject_replicas [simp]: "typedObject (ob\<lparr>replicas := v\<rparr>) = typedObject ob"
  by (simp add: typedObject_def)

lemma DeepCopyObject_At [simp]:
  "DeepCopyObject mem (ob\<lparr>replicas := Some (At ptr)\<rparr>) = snapshot (mem ptr) ob"
  by (simp add: DeepCopyObject_def snapshot_def deref_def)

lemma updateObjects_typed:
  "list_all typedObject obs \<Longrightarrow>
   updateObjects mem ptr obs =
     (map (\<lambda>ob. if isDeployment ob then ob\<lparr>replicas := Some (At ptr)\<rparr> else ob) obs,
      Inr (map (snapshot (mem ptr)) (filter isDeployment obs)))"
  by (induction obs) (auto simp: isDeployment_def typedObject_def Let_def)

lemma updateObjects_untyped:
  "\<not> list_all typedObject obs \<Longrightarrow> snd (updateObjects mem ptr obs) = Inl InterfaceConversion"
  by (induction obs)
     (auto simp: isDeployment_def typedObject_def Let_def split_beta split: sum.split)

lemma updateObjects_erase:
  "map (\<lambda>ob. if isDeployment ob then ob\<lparr>replicas := None\<rparr> else ob)
     (fst (updateObjects mem ptr obs)) =
   map (\<lambda>ob. if isDeployment ob then ob\<lparr>replicas := None\<rparr> else ob) obs"
  by (induction obs) (auto simp: isDeployment_def Let_def split_beta)

lemma updateResources_typed:
  "typed rs \<Longrightarrow> updateResources mem ptr rs = (pointTo ptr rs, Inr (snapshots (mem ptr) rs))"
  by (induction rs) (simp_all add: typed_def pointTo_def snapshots_def updateObjects_typed)

lemma updateResources_untyped:
  "\<not> typed rs \<Longrightarrow> snd (updateResources mem ptr rs) = Inl InterfaceConversion"
proof (induction rs)
  case Nil
  then show ?case by (simp add: typed_def)
next
  case (Cons d rs)
  show ?case
  proof (cases "list_all typedObject (Objects d)")
    case True
    with Cons show ?thesis
      by (simp add: typed_def updateObjects_typed split_beta split: sum.split)
  next
    case False
    from updateObjects_untyped [OF this, of mem ptr] show ?thesis
      by (simp add: split_beta split: sum.split)
  qed
qed

lemma updateResources_erase:
  "eraseReplicas (fst (updateResources mem ptr rs)) = eraseReplicas rs"
  by (induction rs)
     (simp_all add: eraseReplicas_def split_beta updateObjects_erase split: sum.split)

lemma typedObjects_erase:
  "list_all typedObject (map (\<lambda>ob. if isDeployment ob then ob\<lparr>replicas := None\<rparr> else ob) obs)
     = list_all typedObject obs"
  by (induction obs) simp_all

lemma typed_eraseReplicas: "typed (eraseReplicas rs) = typed rs"
  by (induction rs) (simp_all add: typed_def eraseReplicas_def typedObjects_erase)

lemma typed_eraseReplicas_eq:
  "eraseReplicas rs' = eraseReplicas rs \<Longrightarrow> typed rs' = typed rs"
  using typed_eraseReplicas [of rs] typed_eraseReplicas [of rs'] by simp

lemma eraseReplicas_pointTo [simp]: "eraseReplicas (pointTo ptr rs) = eraseReplicas rs"
  by (simp add: eraseReplicas_def pointTo_def o_def cong: if_cong)

lemma typed_pointTo [simp]: "typed (pointTo ptr rs) = typed rs"
  by (rule typed_eraseReplicas_eq) simp

lemma filter_isDeployment_pointTo:
  "filter isDeployment (map (\<lambda>ob. if isDeployment ob then ob\<lparr>replicas := v\<rparr> else ob) obs) =
   map (\<lambda>ob. ob\<lparr>replicas := v\<rparr>) (filter isDeployment obs)"
  by (induction obs) simp_all

lemma snapshot_replicas [simp]: "snapshot v (ob\<lparr>replicas := w\<rparr>) = snapshot v ob"
  by (simp add: snapshot_def)

lemma snapshots_pointTo [simp]: "snapshots v (pointTo ptr rs) = snapshots v rs"
  by (simp add: snapshots_def pointTo_def filter_isDeployment_pointTo o_def filter_map)

lemma pointTo_pointTo [simp]: "pointTo ptr (pointTo ptr' rs) = pointTo ptr rs"
  by (simp add: pointTo_def o_def cong: if_cong)

lemma deployments_pointTo:
  "deployments (pointTo ptr rs) = map (\<lambda>ob. ob\<lparr>replicas := Some (At ptr)\<rparr>) (deployments rs)"
  by (induction rs) (simp_all add: deployments_def pointTo_def filter_isDeployment_pointTo)

lemma objects_snapshots:
  "concat (map Objects (snapshots v rs)) = map (snapshot v) (deployments rs)"
  by (induction rs) (simp_all add: snapshots_def deployments_def)

lemma replicaCounts_snapshots:
  "replicaCounts (snapshots v rs) = replicate (length (deployments rs)) v"
proof -
  have "map replicas (map (snapshot v) obs) = replicate (length obs) v"
    for obs :: "(replicas_ptr, 'a) object list"
    by (induction obs) (simp_all add: snapshot_def)
  moreover have "replicaCounts rs' = map replicas (concat (map Objects rs'))"
    for rs' :: "(int32, 'a) Resource list"
    by (simp add: replicaCounts_def map_concat o_def)
  ultimately show ?thesis
    by (simp add: objects_snapshots)
qed

lemma load_k8sClient [simp]: "load (s\<lparr>k8sClient := rs\<rparr>) l = load s l"
  by (rule ext) (simp add: load_def split: address.split)

lemma updateReplicas_typed:
  "typed (k8sClient s) \<Longrightarrow>
   updateReplicas s l ptr =
     (s\<lparr>k8sClient := pointTo ptr (k8sClient s)\<rparr>, Inr (snapshots (load s l ptr) (k8sClient s)))"
  by (simp add: updateReplicas_def updateResources_typed)

lemma updateReplicas_untyped:
  "\<not> typed (k8sClient s) \<Longrightarrow> snd (updateReplicas s l ptr) = Inl InterfaceConversion"
  by (simp add: updateReplicas_def split_beta updateResources_untyped)

lemma updateReplicas_fields [simp]:
  "min_s (fst (updateReplicas s l ptr)) = min_s s"
  "max_s (fst (updateReplicas s l ptr)) = max_s s"
  "interval (fst (updateReplicas s l ptr)) = interval s"
  "patternName (fst (updateReplicas s l ptr)) = patternName s"
  "scalingFactor (fst (updateReplicas s l ptr)) = scalingFactor s"
  by (simp_all add: updateReplicas_def split_beta)

lemma eraseReplicas_updateReplicas:
  "eraseReplicas (k8sClient (fst (updateReplicas s l ptr))) = eraseReplicas (k8sClient s)"
  by (simp add: updateReplicas_def split_beta updateResources_erase)

lemma typed_updateReplicas [simp]:
  "typed (k8sClient (fst (updateReplicas s l ptr))) = typed (k8sClient s)"
  by (rule typed_eraseReplicas_eq) (rule eraseReplicas_updateReplicas)

lemma load_updateReplicas [simp]: "load (fst (updateReplicas s l' ptr)) l = load s l"
  by (simp add: updateReplicas_def split_beta)

lemma nextNumberOfResources_updateReplicas [simp]:
  "nextNumberOfResources (fst (updateReplicas s l ptr)) = nextNumberOfResources s"
  by (rule ext) (simp add: nextNumberOfResources_def Let_def)

lemma sameObjects_erase:
  "map (\<lambda>ob. if isDeployment ob then ob\<lparr>replicas := None\<rparr> else ob) ys =
   map (\<lambda>ob. if isDeployment ob then ob\<lparr>replicas := None\<rparr> else ob) xs \<Longrightarrow>
   list_all2
     (\<lambda>ob ob'. kind ob' = kind ob \<and> goType ob' = goType ob \<and> body ob' = body ob \<and>
        (if isDeployment ob then True else ob' = ob)) xs ys"
proof (induction xs arbitrary: ys)
  case Nil
  then show ?case by simp
next
  case (Cons x xs)
  then obtain y ys1 where ys: "ys = y # ys1" by (cases ys) auto
  have e: "(if isDeployment y then y\<lparr>replicas := None\<rparr> else y) =
           (if isDeployment x then x\<lparr>replicas := None\<rparr> else x)"
    using Cons.prems ys by simp
  have k: "kind y = kind x"
    using arg_cong [OF e, of kind] by (simp split: if_splits)
  have g: "goType y = goType x"
    using arg_cong [OF e, of goType] by (simp split: if_splits)
  have b: "body y = body x"
    using arg_cong [OF e, of body] by (simp split: if_splits)
  have dep: "isDeployment y = isDeployment x"
    using k by (simp add: isDeployment_def)
  have same: "\<not> isDeployment x \<Longrightarrow> y = x"
    using e dep by simp
  have "list_all2
     (\<lambda>ob ob'. kind ob' = kind ob \<and> goType ob' = goType ob \<and> body ob' = body ob \<and>
        (if isDeployment ob then True else ob' = ob)) xs ys1"
    using Cons.IH [of ys1] Cons.prems ys by simp
  with k g b same ys show ?case by simp
qed

lemma sameButReplicas_erase:
  "eraseReplicas rs' = eraseReplicas rs \<Longrightarrow> sameButReplicas rs rs'"
proof (induction rs arbitrary: rs')
  case Nil
  then show ?case by (simp add: eraseReplicas_def sameButReplicas_def)
next
  case (Cons d rs)
  then obtain d' rs1 where rs': "rs' = d' # rs1"
    by (cases rs') (auto simp: eraseReplicas_def)
  have tl: "eraseReplicas rs1 = eraseReplicas rs"
    using Cons.prems rs' by (simp add: eraseReplicas_def)
  have hd: "d'\<lparr>Objects := map (\<lambda>ob. if isDeployment ob then ob\<lparr>replicas := None\<rparr> else ob) (Objects d')\<rparr>
          = d\<lparr>Objects := map (\<lambda>ob. if isDeployment ob then ob\<lparr>replicas := None\<rparr> else ob) (Objects d)\<rparr>"
    using Cons.prems rs' by (simp add: eraseReplicas_def)
  have fn: "FileName d' = FileName d"
    using arg_cong [OF hd, of FileName] by simp
  have obs: "map (\<lambda>ob. if isDeployment ob then ob\<lparr>replicas := None\<rparr> else ob) (Objects d')
           = map (\<lambda>ob. if isDeployment ob then ob\<lparr>replicas := None\<rparr> else ob) (Objects d)"
    using arg_cong [OF hd, of Objects] by simp
  from Cons.IH [OF tl] fn sameObjects_erase [OF obs] rs' show ?case
    by (simp add: sameButReplicas_def)
qed

subsection \<open>Signed arithmetic of the step pattern\<close>

lemma sint_int32_range: "- (2 ^ 31) \<le> sint (w :: int32)" "sint (w :: int32) < 2 ^ 31"
  using sint_ge [of w] sint_lt [of w] by simp_all

lemma sint_add_no_overflow:
  fixes a b :: int32
  assumes "- (2 ^ 31) \<le> sint a + sint b" and "sint a + sint b < 2 ^ 31"
  shows "sint (a + b) = sint a + sint b"
  using assms by (simp add: sint_word_ariths signed_take_bit_int_eq_self)

lemma sdiv_10_eq:
  "(x :: int) sdiv 10 = (if 0 \<le> x then x div 10 else - ((- x) div 10))"
  by (simp add: signed_divide_int_def sgn_if abs_if)

lemma sint_int32_quo_10: "sint (int32_quo m 10) = sint m sdiv 10"
proof -
  have "- (2 ^ 31) \<le> sint m sdiv 10" "sint m sdiv 10 < 2 ^ 31"
    using sint_int32_range [of m] unfolding sdiv_10_eq by (simp; linarith)+
  then show ?thesis
    by (simp add: int32_quo_def sint_sbintrunc' signed_take_bit_int_eq_self)
qed

lemma sint_nextNumberOfResources:
  assumes "- (2 ^ 31) \<le> sint c + sint (scalingFactor s)"
    and "sint c + sint (scalingFactor s) < 2 ^ 31"
  shows "sint (nextNumberOfResources s c) =
           min (sint c + sint (scalingFactor s)) (sint (max_s s))"
  using assms
  by (simp add: nextNumberOfResources_def Let_def word_sless_alt sint_add_no_overflow min_def)

lemma stepCounts_closed:
  assumes le: "sint (min_s s) \<le> sint (max_s s)"
    and lo: "- (2 ^ 31) \<le> sint (min_s s) + int n * sint (scalingFactor s)"
    and hi: "sint (max_s s) + sint (scalingFactor s) < 2 ^ 31"
  shows "sint ((nextNumberOfResources s ^^ n) (min_s s)) =
           min (sint (min_s s) + int n * sint (scalingFactor s)) (sint (max_s s))"
  using lo
proof (induction n)
  case 0
  with le show ?case by simp
next
  case (Suc n)
  define f where "f = sint (scalingFactor s)"
  define a where "a = sint (min_s s)"
  define m where "m = sint (max_s s)"
  define c where "c = (nextNumberOfResources s ^^ n) (min_s s)"
  have lo': "- (2 ^ 31) \<le> a + int (Suc n) * f"
    using Suc.prems by (simp add: a_def f_def)
  have le': "a \<le> m"
    using le by (simp add: a_def m_def)
  have a_lo: "- (2 ^ 31) \<le> a"
    unfolding a_def by (rule sint_int32_range)
  have step: "a + int (Suc n) * f = a + int n * f + f"
    by (simp add: algebra_simps)
  have nf: "0 \<le> f \<Longrightarrow> 0 \<le> int n * f" by simp
  have nf': "f < 0 \<Longrightarrow> int n * f \<le> 0" by (simp add: mult_nonneg_nonpos)
  have lo_n: "- (2 ^ 31) \<le> a + int n * f"
    using lo' a_lo nf step by (cases "0 \<le> f") linarith+
  have c_eq: "sint c = min (a + int n * f) m"
    using Suc.IH lo_n by (simp add: c_def a_def f_def m_def)
  have c_lo: "- (2 ^ 31) \<le> sint c + f"
  proof (cases "0 \<le> f")
    case True
    then show ?thesis using sint_int32_range(1) [of c] by linarith
  next
    case False
    then have "a + int n * f \<le> m" using nf' le' by linarith
    then have "sint c = a + int n * f" using c_eq by simp
    then show ?thesis using lo' step by linarith
  qed
  have c_hi: "sint c + f < 2 ^ 31"
    using c_eq hi by (simp add: m_def f_def)
  have "sint (nextNumberOfResources s c) = min (sint c + f) m"
    using sint_nextNumberOfResources [of c s] c_lo c_hi by (simp add: f_def m_def)
  also have "\<dots> = min (a + int (Suc n) * f) m"
  proof (cases "0 \<le> f")
    case True
    then show ?thesis using c_eq step by (simp add: min_def) 
  next
    case False
    then have "a + int n * f \<le> m" using nf' le' by linarith
    then have "sint c = a + int n * f" using c_eq by simp
    then show ?thesis using step by simp
  qed
  finally show ?case
    by (simp add: c_def a_def f_def m_def)
qed

subsection \<open>Reading a list of actions\<close>

lemma applied_append: "applied (xs @ ys) = applied xs @ applied ys"
  by (induction xs rule: applied.induct) simp_all

lemma announced_append: "announced (xs @ ys) = announced xs @ announced ys"
  by (induction xs rule: announced.induct) simp_all

lemma failures_append: "failures (xs @ ys) = failures xs @ failures ys"
  by (induction xs rule: failures.induct) simp_all

lemma withoutFailures_append:
  "withoutFailures (xs @ ys) = withoutFailures xs @ withoutFailures ys"
  by (induction xs rule: withoutFailures.induct) simp_all

lemma applied_withoutFailures: "applied (withoutFailures es) = applied es"
  by (induction es rule: withoutFailures.induct) simp_all

lemma sleeps_withoutFailures: "sleeps (withoutFailures es) = sleeps es"
  by (induction es rule: withoutFailures.induct) simp_all

lemma report_reads [simp]:
  "applied (report e) = []"
  "announced (report e) = []"
  "withoutFailures (report e) = []"
  "failures (report e) = (case e of None \<Rightarrow> [] | Some m \<Rightarrow> [''Error scaling deployment: '' @ m])"
  by (simp_all add: report_def split: option.split)

lemma report_alwaysOk [simp]: "report (alwaysOk k) = []"
  by (simp add: report_def alwaysOk_def)

lemma outcomes_Log [simp]: "outcomes (Log l # es) = outcomes es"
  by simp

lemma outcomes_cycle:
  "outcomes (ResourceApply rs # report e @ Sleep d # es) =
     map_option (\<lambda>m. ''Error scaling deployment: '' @ m) e # outcomes es"
  by (cases e) (simp_all add: report_def)

lemma updateScalingFactor_reads [simp]:
  "applied (snd (updateScalingFactor s)) = []"
  "announced (snd (updateScalingFactor s)) = []"
  "failures (snd (updateScalingFactor s)) = []"
  "withoutFailures (snd (updateScalingFactor s)) = snd (updateScalingFactor s)"
  by (simp_all add: updateScalingFactor_def Let_def)

lemma updateScalingFactor_fields [simp]:
  "k8sClient (fst (updateScalingFactor s)) = k8sClient s"
  "min_s (fst (updateScalingFactor s)) = min_s s"
  "max_s (fst (updateScalingFactor s)) = max_s s"
  "interval (fst (updateScalingFactor s)) = interval s"
  "patternName (fst (updateScalingFactor s)) = patternName s"
  by (simp_all add: updateScalingFactor_def Let_def)

lemma updateScalingFactor_factor:
  "scalingFactor (fst (updateScalingFactor s)) =
     (if max_s s \<le>s scalingFactor s \<or> scalingFactor s = 0
      then int32_quo (max_s s) 10 else scalingFactor s)"
  by (simp add: updateScalingFactor_def Let_def)

lemma outcomes_prefix:
  "outcomes (Log l # es) = outcomes es"
  "outcomes (snd (updateScalingFactor s) @ es) = outcomes es"
  by (simp_all add: updateScalingFactor_def Let_def)

lemma nth_alternate:
  "i < 2 * n \<Longrightarrow> concat (replicate n [a, b]) ! i = (if even i then a else b)"
proof (induction n arbitrary: i)
  case 0
  then show ?case by simp
next
  case (Suc n)
  show ?case
  proof (cases i)
    case 0
    then show ?thesis by simp
  next
    case (Suc j)
    note i = this
    show ?thesis
    proof (cases j)
      case 0
      with i show ?thesis by simp
    next
      case (Suc l)
      with i Suc.prems have "l < 2 * n" by simp
      from Suc.IH [OF this] i Suc show ?thesis by simp
    qed
  qed
qed

lemma length_alternate: "length (concat (replicate n [a, b])) = 2 * n"
  by (induction n) simp_all

subsection \<open>The two loops\<close>

lemma burstLoop_applied:
  "applied (burstLoop api s a b k n) = concat (replicate n [a, b])"
  by (induction n arbitrary: k) (simp_all add: applied_append)

lemma burstLoop_announced:
  "announced (burstLoop api s a b k n) = concat (replicate n [max_s s, min_s s])"
  by (induction n arbitrary: k) (simp_all add: announced_append)

lemma burstLoop_withoutFailures:
  "withoutFailures (burstLoop api s a b k n) = burstLoop alwaysOk s a b k n"
  by (induction n arbitrary: k) (simp_all add: withoutFailures_append)

lemma burstLoop_failures:
  "failures (burstLoop api s a b k n) =
     map (\<lambda>m. ''Error scaling deployment: '' @ m) (List.map_filter api [k..<k + 2 * n])"
proof (induction n arbitrary: k)
  case 0
  then show ?case by simp
next
  case (Suc n)
  have "[k..<k + 2 * Suc n] = k # Suc k # [Suc (Suc k)..<Suc (Suc k) + 2 * n]"
    by (simp add: upt_rec [of k] upt_rec [of "Suc k"])
  then show ?case
    by (simp add: failures_append Suc.IH del: upt_Suc split: option.split)
qed

lemma burstLoop_outcomes:
  "outcomes (burstLoop api s a b k n) =
     map (\<lambda>j. map_option (\<lambda>m. ''Error scaling deployment: '' @ m) (api j)) [k..<k + 2 * n]"
proof (induction n arbitrary: k)
  case 0
  then show ?case by simp
next
  case (Suc n)
  have u: "[k..<k + 2 * Suc n] = k # Suc k # [Suc (Suc k)..<Suc (Suc k) + 2 * n]"
    by (simp add: upt_rec [of k] upt_rec [of "Suc k"])
  have "outcomes (burstLoop api s a b k (Suc n)) =
        outcomes (ResourceApply a # report (api k) @ Sleep (interval s) #
          Log (ScalingTo (min_s s)) # ResourceApply b # report (api (Suc k)) @
          Sleep (interval s) # burstLoop api s a b (Suc (Suc k)) n)"
    by simp
  also have "\<dots> = map_option (\<lambda>m. ''Error scaling deployment: '' @ m) (api k) #
        map_option (\<lambda>m. ''Error scaling deployment: '' @ m) (api (Suc k)) #
        outcomes (burstLoop api s a b (Suc (Suc k)) n)"
    by (simp only: outcomes_cycle outcomes_Log)
  finally show ?case
    by (simp only: Suc.IH u list.map)
qed

lemma stepLoop_typed_Suc:
  assumes "typed (k8sClient s)"
  shows "stepLoop api s c k (Suc n) =
           (let r = stepLoop api (s\<lparr>k8sClient := pointTo Addr_numberOfResources (k8sClient s)\<rparr>)
                      (nextNumberOfResources s c) (Suc k) n
            in (fst r,
                [Log (ScalingTo c), ResourceApply (snapshots (Some c) (k8sClient s))] @
                report (api k) @ [Sleep (interval s)] @ fst (snd r),
                snd (snd r)))"
proof -
  have n: "nextNumberOfResources (s\<lparr>k8sClient := rs\<rparr>) = nextNumberOfResources s" for rs
    by (rule ext) (simp add: nextNumberOfResources_def Let_def)
  show ?thesis
    using assms by (simp add: updateReplicas_typed split_beta Let_def load_def n)
qed

lemma stepLoop_untyped:
  assumes "\<not> typed (k8sClient s)"
  shows "stepLoop api s c k (Suc n) =
           (fst (updateReplicas s (Some c) Addr_numberOfResources),
            [Log (ScalingTo c)], Panicked InterfaceConversion, c)"
  using updateReplicas_untyped [OF assms, of "Some c" Addr_numberOfResources]
  by (simp add: split_beta)

lemma nextNumberOfResources_k8sClient [simp]:
  "nextNumberOfResources (s\<lparr>k8sClient := rs\<rparr>) = nextNumberOfResources s"
  by (rule ext) (simp add: nextNumberOfResources_def Let_def)

lemma stepLoop_announced:
  "typed (k8sClient s) \<Longrightarrow>
   announced (fst (snd (stepLoop api s c k n))) =
     map (\<lambda>i. (nextNumberOfResources s ^^ i) c) [0..<n]"
proof (induction n arbitrary: s c k)
  case 0
  then show ?case by simp
next
  case (Suc n)
  show ?case
    using Suc.prems
    by (simp add: stepLoop_typed_Suc Let_def announced_append Suc.IH map_upt_Suc funpow_swap1
        del: upt_Suc stepLoop.simps)
qed

lemma stepLoop_applied:
  "typed (k8sClient s) \<Longrightarrow>
   applied (fst (snd (stepLoop api s c k n))) =
     map (\<lambda>i. snapshots (Some ((nextNumberOfResources s ^^ i) c)) (k8sClient s)) [0..<n]"
proof (induction n arbitrary: s c k)
  case 0
  then show ?case by simp
next
  case (Suc n)
  show ?case
    using Suc.prems
    by (simp add: stepLoop_typed_Suc Let_def applied_append Suc.IH map_upt_Suc funpow_swap1
        del: upt_Suc stepLoop.simps)
qed

lemma stepLoop_state:
  "typed (k8sClient s) \<Longrightarrow>
   fst (stepLoop api s c k (Suc n)) =
     s\<lparr>k8sClient := pointTo Addr_numberOfResources (k8sClient s)\<rparr>"
proof (induction n arbitrary: s c k)
  case 0
  then show ?case by (simp add: stepLoop_typed_Suc Let_def del: stepLoop.simps(2))
next
  case (Suc n)
  have "fst (stepLoop api s c k (Suc (Suc n))) =
        fst (stepLoop api (s\<lparr>k8sClient := pointTo Addr_numberOfResources (k8sClient s)\<rparr>)
              (nextNumberOfResources s c) (Suc k) (Suc n))"
    using Suc.prems by (simp add: stepLoop_typed_Suc [of s api c k "Suc n"] Let_def del: stepLoop.simps)
  also have "\<dots> = s\<lparr>k8sClient := pointTo Addr_numberOfResources (k8sClient s)\<rparr>"
    using Suc.prems by (subst Suc.IH) simp_all
  finally show ?case .
qed

lemma stepLoop_status:
  "typed (k8sClient s) \<Longrightarrow> snd (snd (stepLoop api s c k n)) =
     (Looping, (nextNumberOfResources s ^^ n) c)"
proof (induction n arbitrary: s c k)
  case 0
  then show ?case by simp
next
  case (Suc n)
  show ?case
    using Suc.prems
    by (simp add: stepLoop_typed_Suc Let_def Suc.IH funpow_swap1 del: stepLoop.simps)
qed

lemma stepLoop_withoutFailures:
  "withoutFailures (fst (snd (stepLoop api s c k n))) = fst (snd (stepLoop alwaysOk s c k n))"
  by (induction n arbitrary: s c k)
     (simp_all add: split_beta withoutFailures_append split: sum.split)

lemma stepLoop_rest_api:
  "fst (stepLoop api s c k n) = fst (stepLoop alwaysOk s c k n) \<and>
   snd (snd (stepLoop api s c k n)) = snd (snd (stepLoop alwaysOk s c k n))"
  by (induction n arbitrary: s c k) (simp_all add: split_beta split: sum.split)

lemma stepLoop_failures:
  "failures (fst (snd (stepLoop api s c k n))) =
     map (\<lambda>m. ''Error scaling deployment: '' @ m)
       (List.map_filter api [k..<k + length (applied (fst (snd (stepLoop api s c k n))))])"
proof (induction n arbitrary: s c k)
  case 0
  then show ?case by simp
next
  case (Suc n)
  have u: "[k..<Suc (k + m)] = k # [Suc k..<Suc k + m]" for m
    by (simp add: upt_rec [of k])
  show ?case
    by (simp add: split_beta failures_append applied_append Suc.IH u
        del: upt_Suc split: sum.split option.split)
qed

lemma stepLoop_outcomes:
  "outcomes (fst (snd (stepLoop api s c k n))) =
     map (\<lambda>j. map_option (\<lambda>m. ''Error scaling deployment: '' @ m) (api j))
       [k..<k + length (applied (fst (snd (stepLoop api s c k n))))]"
proof (induction n arbitrary: s c k)
  case 0
  then show ?case by simp
next
  case (Suc n)
  have u: "[k..<Suc (k + m)] = k # [Suc k..<Suc k + m]" for m
    by (simp add: upt_rec [of k])
  show ?case
  proof (cases "snd (updateReplicas s (Some c) Addr_numberOfResources)")
    case (Inl e)
    then show ?thesis by (simp add: split_beta)
  next
    case (Inr rs)
    define s1 where "s1 = fst (updateReplicas s (Some c) Addr_numberOfResources)"
    define r where "r = stepLoop api s1 (nextNumberOfResources s1 c) (Suc k) n"
    have acts: "fst (snd (stepLoop api s c k (Suc n))) =
        Log (ScalingTo c) # ResourceApply rs # report (api k) @ Sleep (interval s) # fst (snd r)"
      using Inr by (simp add: split_beta s1_def r_def)
    have "outcomes (fst (snd (stepLoop api s c k (Suc n)))) =
        map_option (\<lambda>m. ''Error scaling deployment: '' @ m) (api k) # outcomes (fst (snd r))"
      by (simp only: acts outcomes_Log outcomes_cycle)
    moreover have "length (applied (fst (snd (stepLoop api s c k (Suc n))))) =
        Suc (length (applied (fst (snd r))))"
      by (simp only: acts) (simp add: applied_append)
    ultimately show ?thesis
      by (simp only: r_def Suc.IH) (simp add: u del: upt_Suc)
  qed
qed

lemma stepLoop_fields [simp]:
  "min_s (fst (stepLoop api s c k n)) = min_s s"
  "max_s (fst (stepLoop api s c k n)) = max_s s"
  "interval (fst (stepLoop api s c k n)) = interval s"
  "patternName (fst (stepLoop api s c k n)) = patternName s"
  "scalingFactor (fst (stepLoop api s c k n)) = scalingFactor s"
  by (induction n arbitrary: s c k; simp add: split_beta split: sum.split)+

lemma stepLoop_erase:
  "eraseReplicas (k8sClient (fst (stepLoop api s c k n))) = eraseReplicas (k8sClient s)"
  by (induction n arbitrary: s c k)
     (simp_all add: split_beta eraseReplicas_updateReplicas split: sum.split)

subsection \<open>The two patterns\<close>

lemma scale_burst_typed:
  assumes "patternName s = ''burst''" and "typed (k8sClient s)"
  shows "scale api s n =
           (s\<lparr>k8sClient := pointTo Addr_min (k8sClient s)\<rparr>,
            [Log (AutoScalePattern ''burst''),
             Log (StartingBurst (max_s s) (min_s s) (interval s))] @
            burstLoop api (s\<lparr>k8sClient := pointTo Addr_min (k8sClient s)\<rparr>)
              (snapshots (Some (max_s s)) (k8sClient s))
              (snapshots (Some (min_s s)) (k8sClient s)) 0 n,
            Looping, None)"
  using assms by (simp add: scale_def updateReplicas_typed load_def)

lemma scale_burst_untyped:
  assumes "patternName s = ''burst''" and "\<not> typed (k8sClient s)"
  shows "scale api s n =
           (fst (updateReplicas s None Addr_max),
            [Log (AutoScalePattern ''burst''),
             Log (StartingBurst (max_s s) (min_s s) (interval s))],
            Panicked InterfaceConversion, None)"
  using assms updateReplicas_untyped [OF assms(2), of None Addr_max]
  by (simp add: scale_def split_beta)

lemma scale_step:
  assumes "patternName s = ''step''"
  shows "scale api s n =
           (fst (stepLoop api (fst (updateScalingFactor s)) (min_s s) 0 n),
            [Log (AutoScalePattern ''step'')] @ snd (updateScalingFactor s) @
            [Log (StartingStep (max_s s) (min_s s) (interval s)
                    (scalingFactor (fst (updateScalingFactor s))))] @
            fst (snd (stepLoop api (fst (updateScalingFactor s)) (min_s s) 0 n)),
            fst (snd (snd (stepLoop api (fst (updateScalingFactor s)) (min_s s) 0 n))),
            Some (snd (snd (snd (stepLoop api (fst (updateScalingFactor s)) (min_s s) 0 n)))))"
  using assms by (simp add: scale_def split_beta)

lemma scale_other:
  assumes "patternName s \<noteq> ''burst''" and "patternName s \<noteq> ''step''"
  shows "scale api s n = (s, [Log (InvalidPattern (patternName s))], Exit 2, None)"
  using assms by (simp add: scale_def)

lemma burst_announced:
  assumes "patternName s = ''burst''"
  shows "announced (actions (scale api s n)) =
           (if typed (k8sClient s) then concat (replicate n [max_s s, min_s s]) else [])"
  using assms by (simp add: scale_burst_typed scale_burst_untyped burstLoop_announced)

lemma burst_applied:
  assumes "patternName s = ''burst''"
  shows "applied (actions (scale api s n)) =
           (if typed (k8sClient s)
            then concat (replicate n [snapshots (Some (max_s s)) (k8sClient s),
                                      snapshots (Some (min_s s)) (k8sClient s)])
            else [])"
  using assms by (simp add: scale_burst_typed scale_burst_untyped burstLoop_applied)

lemma burst_length_applied:
  "patternName s = ''burst'' \<Longrightarrow>
   length (applied (actions (scale api s n))) = (if typed (k8sClient s) then 2 * n else 0)"
  by (simp add: burst_applied length_alternate)

lemma step_announced:
  assumes "patternName s = ''step''" and "typed (k8sClient s)"
  shows "announced (actions (scale api s n)) =
           map (\<lambda>i. (nextNumberOfResources (fst (updateScalingFactor s)) ^^ i) (min_s s)) [0..<n]"
  using assms by (simp add: scale_step announced_append stepLoop_announced)

lemma step_applied:
  assumes "patternName s = ''step''" and "typed (k8sClient s)"
  shows "applied (actions (scale api s n)) =
           map (\<lambda>i. snapshots
                  (Some ((nextNumberOfResources (fst (updateScalingFactor s)) ^^ i) (min_s s)))
                  (k8sClient s))
             [0..<n]"
  using assms by (simp add: scale_step applied_append stepLoop_applied)

lemma step_untyped:
  assumes "patternName s = ''step''" and "\<not> typed (k8sClient s)"
  shows "applied (actions (scale api s n)) = []"
    and "announced (actions (scale api s n)) = (if n = 0 then [] else [min_s s])"
    and "status_of (scale api s n) = (if n = 0 then Looping else Panicked InterfaceConversion)"
proof -
  have u: "\<not> typed (k8sClient (fst (updateScalingFactor s)))"
    using assms(2) by simp
  show "applied (actions (scale api s n)) = []"
    using assms(1) by (cases n) (simp_all add: scale_step applied_append stepLoop_untyped [OF u] del: stepLoop.simps(2))
  show "announced (actions (scale api s n)) = (if n = 0 then [] else [min_s s])"
    using assms(1) by (cases n) (simp_all add: scale_step announced_append stepLoop_untyped [OF u] del: stepLoop.simps(2))
  show "status_of (scale api s n) = (if n = 0 then Looping else Panicked InterfaceConversion)"
    using assms(1) by (cases n) (simp_all add: scale_step stepLoop_untyped [OF u] del: stepLoop.simps(2))
qed

lemma step_length_applied:
  "patternName s = ''step'' \<Longrightarrow>
   length (applied (actions (scale api s n))) = (if typed (k8sClient s) then n else 0)"
  by (simp add: step_applied step_untyped)

lemma other_length_applied:
  "patternName s \<noteq> ''burst'' \<Longrightarrow> patternName s \<noteq> ''step'' \<Longrightarrow>
     length (applied (actions (scale api s n))) = 0"
  by (simp add: scale_other)

lemma updateReplicas_snapshots:
  "typed (k8sClient s) \<Longrightarrow>
   snd (updateReplicas s l ptr) = Inr (snapshots (load s l ptr) (k8sClient s))"
  by (simp add: updateReplicas_typed)

lemma step_applied_announced:
  assumes "patternName s = ''step''" and "typed (k8sClient s)" and "i < n"
  shows "Inr (applied (actions (scale api s n)) ! i) =
           snd (updateReplicas s (Some (announced (actions (scale api s n)) ! i))
                  Addr_numberOfResources)"
  using assms by (simp add: step_applied step_announced updateReplicas_snapshots load_def)

lemma step_replicaCounts:
  assumes "patternName s = ''step''" and "typed (k8sClient s)" and "i < n"
  shows "replicaCounts (applied (actions (scale api s n)) ! i) =
           replicate (length (deployments (k8sClient s)))
             (Some (announced (actions (scale api s n)) ! i))"
  using assms by (simp add: step_applied step_announced replicaCounts_snapshots)

lemma burst_replicaCounts:
  assumes "patternName s = ''burst''" and "typed (k8sClient s)" and "i < 2 * n"
  shows "replicaCounts (applied (actions (scale api s n)) ! i) =
           replicate (length (deployments (k8sClient s)))
             (Some (announced (actions (scale api s n)) ! i))"
  using assms
  by (simp add: burst_applied burst_announced nth_alternate replicaCounts_snapshots)

lemma step_count_closed:
  assumes "patternName s = ''step''"
    and "typed (k8sClient s)"
    and "min_s s \<le>s max_s s"
    and "i < n"
    and "- (2 ^ 31) \<le> sint (min_s s) + int i * sint (scalingFactor (fst (updateScalingFactor s)))"
    and "sint (max_s s) + sint (scalingFactor (fst (updateScalingFactor s))) < 2 ^ 31"
  shows "sint (announced (actions (scale api s n)) ! i) =
           min (sint (min_s s) + int i * sint (scalingFactor (fst (updateScalingFactor s))))
               (sint (max_s s))"
  using assms stepCounts_closed [of "fst (updateScalingFactor s)" i]
  by (simp add: step_announced word_sle_eq)

lemma step_zero_factor:
  assumes "patternName s = ''step''"
    and "typed (k8sClient s)"
    and "scalingFactor (fst (updateScalingFactor s)) = 0"
    and "min_s s \<le>s max_s s"
    and "i < n"
  shows "announced (actions (scale api s n)) ! i = min_s s"
proof -
  have "sint (announced (actions (scale api s n)) ! i) = sint (min_s s)"
    using step_count_closed [OF assms(1,2,4,5), of api] assms(3,4)
      sint_int32_range [of "min_s s"] sint_int32_range [of "max_s s"]
    by (simp add: word_sle_eq)
  then show ?thesis
    by (rule signed_word_eqI)
qed

lemma pattern_cases [case_names burst burst' step other]:
  assumes "patternName s = ''burst'' \<Longrightarrow> typed (k8sClient s) \<Longrightarrow> P"
    and "patternName s = ''burst'' \<Longrightarrow> \<not> typed (k8sClient s) \<Longrightarrow> P"
    and "patternName s = ''step'' \<Longrightarrow> P"
    and "patternName s \<noteq> ''burst'' \<Longrightarrow> patternName s \<noteq> ''step'' \<Longrightarrow> P"
  shows P
  using assms by blast

lemma scale_withoutFailures:
  "withoutFailures (actions (scale api s n)) = actions (scale alwaysOk s n)"
proof (cases s rule: pattern_cases)
  case burst
  then show ?thesis
    by (simp add: scale_burst_typed burstLoop_withoutFailures)
next
  case burst'
  then show ?thesis
    by (simp add: scale_burst_untyped)
next
  case step
  then show ?thesis
    by (simp add: scale_step withoutFailures_append stepLoop_withoutFailures)
next
  case other
  then show ?thesis
    by (simp add: scale_other)
qed

lemma scale_rest_api:
  "client (scale api s n) = client (scale alwaysOk s n) \<and>
   snd (snd (scale api s n)) = snd (snd (scale alwaysOk s n))"
proof (cases s rule: pattern_cases)
  case burst
  then show ?thesis
    by (simp add: scale_burst_typed)
next
  case burst'
  then show ?thesis
    by (simp add: scale_burst_untyped)
next
  case step
  then show ?thesis
    using stepLoop_rest_api [of api "fst (updateScalingFactor s)" "min_s s" 0 n]
    by (simp add: scale_step)
next
  case other
  then show ?thesis
    by (simp add: scale_other)
qed

lemma scale_outcomes:
  "outcomes (actions (scale api s n)) =
     map (\<lambda>j. map_option (\<lambda>m. ''Error scaling deployment: '' @ m) (api j))
       [0..<length (applied (actions (scale api s n)))]"
proof -
  consider (burst) "patternName s = ''burst''" "typed (k8sClient s)"
    | (burst') "patternName s = ''burst''" "\<not> typed (k8sClient s)"
    | (step) "patternName s = ''step''"
    | (other) "patternName s \<noteq> ''burst''" "patternName s \<noteq> ''step''"
    by blast
  then show ?thesis
  proof cases
    case burst
    have "outcomes (actions (scale api s n)) =
          outcomes (burstLoop api (s\<lparr>k8sClient := pointTo Addr_min (k8sClient s)\<rparr>)
              (snapshots (Some (max_s s)) (k8sClient s))
              (snapshots (Some (min_s s)) (k8sClient s)) 0 n)"
      by (simp add: scale_burst_typed [OF burst])
    then show ?thesis
      using burst by (simp only: burstLoop_outcomes burst_length_applied) simp
  next
    case burst'
    then show ?thesis by (simp add: scale_burst_untyped)
  next
    case step
    have a: "outcomes (actions (scale api s n)) =
          outcomes (fst (snd (stepLoop api (fst (updateScalingFactor s)) (min_s s) 0 n)))"
      by (simp add: scale_step [OF step] outcomes_prefix)
    have b: "applied (actions (scale api s n)) =
          applied (fst (snd (stepLoop api (fst (updateScalingFactor s)) (min_s s) 0 n)))"
      by (simp add: scale_step [OF step] applied_append)
    show ?thesis
      by (simp only: a b stepLoop_outcomes) simp
  next
    case other
    then show ?thesis by (simp add: scale_other)
  qed
qed

lemma scale_failures:
  "failures (actions (scale api s n)) =
     map (\<lambda>m. ''Error scaling deployment: '' @ m)
       (List.map_filter api [0..<length (applied (actions (scale api s n)))])"
proof -
  consider (burst) "patternName s = ''burst''" "typed (k8sClient s)"
    | (burst') "patternName s = ''burst''" "\<not> typed (k8sClient s)"
    | (step) "patternName s = ''step''"
    | (other) "patternName s \<noteq> ''burst''" "patternName s \<noteq> ''step''"
    by blast
  then show ?thesis
  proof cases
    case burst
    have "failures (actions (scale api s n)) =
          failures (burstLoop api (s\<lparr>k8sClient := pointTo Addr_min (k8sClient s)\<rparr>)
              (snapshots (Some (max_s s)) (k8sClient s))
              (snapshots (Some (min_s s)) (k8sClient s)) 0 n)"
      by (simp add: scale_burst_typed [OF burst])
    then show ?thesis
      using burst by (simp only: burstLoop_failures burst_length_applied) simp
  next
    case burst'
    then show ?thesis by (simp add: scale_burst_untyped)
  next
    case step
    have a: "failures (actions (scale api s n)) =
          failures (fst (snd (stepLoop api (fst (updateScalingFactor s)) (min_s s) 0 n)))"
      by (simp add: scale_step [OF step] failures_append)
    have b: "applied (actions (scale api s n)) =
          applied (fst (snd (stepLoop api (fst (updateScalingFactor s)) (min_s s) 0 n)))"
      by (simp add: scale_step [OF step] applied_append)
    show ?thesis
      by (simp only: a b stepLoop_failures) simp
  next
    case other
    then show ?thesis by (simp add: scale_other)
  qed
qed

lemma scale_eraseReplicas:
  "eraseReplicas (k8sClient (client (scale api s n))) = eraseReplicas (k8sClient s)"
proof (cases s rule: pattern_cases)
  case burst
  then show ?thesis
    by (simp add: scale_burst_typed)
next
  case burst'
  then show ?thesis
    by (simp add: scale_burst_untyped eraseReplicas_updateReplicas)
next
  case step
  then show ?thesis
    by (simp add: scale_step stepLoop_erase)
next
  case other
  then show ?thesis
    by (simp add: scale_other)
qed

lemma step_length_announced:
  "patternName s = ''step'' \<Longrightarrow>
   length (announced (actions (scale api s n))) =
     (if typed (k8sClient s) then n else if n = 0 then 0 else 1)"
  by (simp add: step_announced step_untyped)

lemma replicas_snapshot: "replicas (snapshot v ob) = v"
  by (simp add: snapshot_def)

lemma scale_status:
  "status_of (scale api s n) =
     (if patternName s = ''burst''
      then (if typed (k8sClient s) then Looping else Panicked InterfaceConversion)
      else if patternName s = ''step''
      then (if typed (k8sClient s) \<or> n = 0 then Looping else Panicked InterfaceConversion)
      else Exit 2)"
proof (cases s rule: pattern_cases)
  case burst
  then show ?thesis by (simp add: scale_burst_typed)
next
  case burst'
  then show ?thesis by (simp add: scale_burst_untyped)
next
  case step
  show ?thesis
  proof (cases "typed (k8sClient s)")
    case True
    then show ?thesis
      using step by (simp add: scale_step stepLoop_status)
  next
    case False
    then show ?thesis
      using step step_untyped(3) [OF step False, of api n] by simp
  qed
next
  case other
  then show ?thesis by (simp add: scale_other)
qed

lemma scale_left_no_apply:
  "status_of (scale api s n) \<noteq> Looping \<Longrightarrow> applied (actions (scale api s n)) = []"
proof (cases s rule: pattern_cases)
  case burst
  assume "status_of (scale api s n) \<noteq> Looping"
  with burst show ?thesis by (simp add: scale_status)
next
  case burst'
  then show ?thesis by (simp add: burst_applied)
next
  case step
  assume "status_of (scale api s n) \<noteq> Looping"
  with step have "\<not> typed (k8sClient s)"
    by (simp add: scale_status split: if_splits)
  with step show ?thesis by (simp add: step_untyped)
next
  case other
  then show ?thesis by (simp add: scale_other)
qed

lemma heldReplicas_pointTo:
  "heldReplicas (s\<lparr>k8sClient := pointTo ptr rs\<rparr>) l =
     replicate (length (deployments rs)) (load s l ptr)"
proof -
  have "map (\<lambda>ob. Option.bind (replicas ob) (deref mem))
          (map (\<lambda>ob. ob\<lparr>replicas := Some (At ptr)\<rparr>) obs) =
        replicate (length obs) (mem ptr)" for mem and obs :: "(replicas_ptr, 'a) object list"
    by (induction obs) (simp_all add: deref_def)
  then show ?thesis
    by (simp add: heldReplicas_def deployments_pointTo)
qed

lemma step_client:
  assumes "patternName s = ''step''" and "typed (k8sClient s)"
  shows "client (scale api s (Suc n)) =
           (fst (updateScalingFactor s))
             \<lparr>k8sClient := pointTo Addr_numberOfResources (k8sClient s)\<rparr>"
    and "local_of (scale api s n) =
           Some ((nextNumberOfResources (fst (updateScalingFactor s)) ^^ n) (min_s s))"
  using assms by (simp_all add: scale_step stepLoop_state stepLoop_status del: stepLoop.simps)

lemma step_client_update:
  assumes "patternName s = ''step''" and "typed (k8sClient s)"
  shows "client (scale api s (Suc n)) =
           fst (updateReplicas (client (scale api s n)) (local_of (scale api s n))
                  Addr_numberOfResources)"
proof (cases n)
  case 0
  have "client (scale api s 0) = fst (updateScalingFactor s)"
    using assms(1) by (simp add: scale_step)
  then show ?thesis
    using assms 0 by (simp add: step_client(1) updateReplicas_typed)
next
  case (Suc m)
  then show ?thesis
    using assms by (simp add: step_client(1) updateReplicas_typed)
qed

section \<open>The claims\<close>

text \<open>
  C1, amended. For every scale command with \<open>min \<le> max\<close>, every call of
  \<^verbatim>\<open>ResourceApply\<close> of every cycle carries, in every deployment, the count announced
  for it, and that count lies in \<open>[min, max]\<close>: under the burst pattern always, and
  under the step pattern provided the scaling factor \<open>f\<close> after lines 100 to 114 is not
  negative and \<open>max + f \<le> 2^31 - 1\<close>, so that the addition of line 129 cannot wrap around.
\<close>

theorem applied_counts_within_bounds:
  assumes le: "min_s s \<le>s max_s s"
    and factor: "patternName s = ''step'' \<Longrightarrow>
           0 \<le>s scalingFactor (fst (updateScalingFactor s)) \<and>
           sint (max_s s) + sint (scalingFactor (fst (updateScalingFactor s))) < 2 ^ 31"
    and i: "i < length (applied (actions (scale api s n)))"
  shows "replicaCounts (applied (actions (scale api s n)) ! i) =
           replicate (length (deployments (k8sClient s)))
             (Some (announced (actions (scale api s n)) ! i)) \<and>
         min_s s \<le>s announced (actions (scale api s n)) ! i \<and>
         announced (actions (scale api s n)) ! i \<le>s max_s s"
proof (cases s rule: pattern_cases)
  case burst
  have i': "i < 2 * n"
    using i burst by (simp add: burst_length_applied)
  have "announced (actions (scale api s n)) ! i = (if even i then max_s s else min_s s)"
    using i' burst by (simp add: burst_announced nth_alternate)
  then have "min_s s \<le>s announced (actions (scale api s n)) ! i \<and>
       announced (actions (scale api s n)) ! i \<le>s max_s s"
    using le by (simp add: word_sle_eq)
  with burst_replicaCounts [OF burst i', of api] show ?thesis by blast
next
  case burst'
  with i show ?thesis
    by (simp add: burst_length_applied)
next
  case step
  show ?thesis
  proof (cases "typed (k8sClient s)")
    case False
    with i step show ?thesis
      by (simp add: step_length_applied)
  next
    case True
    define f where "f = sint (scalingFactor (fst (updateScalingFactor s)))"
    have i': "i < n"
      using i step True by (simp add: step_length_applied)
    have f0: "0 \<le> f" and hi: "sint (max_s s) + f < 2 ^ 31"
      using factor [OF step] by (simp_all add: f_def word_sle_eq)
    have "0 \<le> int i * f"
      using f0 by simp
    then have lo: "- (2 ^ 31) \<le> sint (min_s s) + int i * f"
      using sint_int32_range(1) [of "min_s s"] by linarith
    have "sint (announced (actions (scale api s n)) ! i) =
            min (sint (min_s s) + int i * f) (sint (max_s s))"
      using step_count_closed [OF step True le i', of api] lo hi by (simp add: f_def)
    then have "min_s s \<le>s announced (actions (scale api s n)) ! i \<and>
         announced (actions (scale api s n)) ! i \<le>s max_s s"
      using le \<open>0 \<le> int i * f\<close> by (simp add: word_sle_eq)
    with step_replicaCounts [OF step True i', of api] show ?thesis by blast
  qed
next
  case other
  with i show ?thesis
    by (simp add: other_length_applied)
qed

text \<open>
  C1 for the thirteenth call of the step pattern with \<open>max = 100\<close>, \<open>min = 0\<close>, and for
  the eighth call of the burst pattern with \<open>max = 20\<close>, \<open>min = 1\<close>.
\<close>

theorem applied_counts_within_bounds_witness:
  "replicaCounts (applied (actions (scale flaky (command 100 0 ''step'' 0) 13)) ! 12) =
     replicate 2 (Some (announced (actions (scale flaky (command 100 0 ''step'' 0) 13)) ! 12)) \<and>
   0 \<le>s announced (actions (scale flaky (command 100 0 ''step'' 0) 13)) ! 12 \<and>
   announced (actions (scale flaky (command 100 0 ''step'' 0) 13)) ! 12 \<le>s 100 \<and>
   1 \<le>s announced (actions (scale flaky (command 20 1 ''burst'' 0) 4)) ! 7 \<and>
   announced (actions (scale flaky (command 20 1 ''burst'' 0) 4)) ! 7 \<le>s 20"
proof -
  have le: "min_s (command 100 0 ''step'' 0) \<le>s max_s (command 100 0 ''step'' 0)"
    by code_simp
  have f: "0 \<le>s scalingFactor (fst (updateScalingFactor (command 100 0 ''step'' 0))) \<and>
        sint (max_s (command 100 0 ''step'' 0)) +
        sint (scalingFactor (fst (updateScalingFactor (command 100 0 ''step'' 0)))) < 2 ^ 31"
    by code_simp
  have i: "12 < length (applied (actions (scale flaky (command 100 0 ''step'' 0) 13)))"
    by code_simp
  have m: "min_s (command 100 0 ''step'' 0) = 0" "max_s (command 100 0 ''step'' 0) = 100"
    "min_s (command 20 1 ''burst'' 0) = 1" "max_s (command 20 1 ''burst'' 0) = 20"
    by (simp_all add: command_def commandOn_def)
  have d: "length (deployments (k8sClient (command 100 0 ''step'' 0))) = 2"
    by code_simp
  have le': "min_s (command 20 1 ''burst'' 0) \<le>s max_s (command 20 1 ''burst'' 0)"
    by code_simp
  have np: "patternName (command 20 1 ''burst'' 0) \<noteq> ''step''"
    by (simp add: command_def commandOn_def)
  have i': "7 < length (applied (actions (scale flaky (command 20 1 ''burst'' 0) 4)))"
    by code_simp
  from applied_counts_within_bounds [OF le f i]
    applied_counts_within_bounds [OF le' _ i'] np
  show ?thesis
    by (simp add: m d)
qed

text \<open>
  C1 as stated fails under the step pattern, with \<open>0 \<le> min \<le> max\<close>: a factor of \<open>- 1\<close>
  sends \<open>- 1\<close> on the second call, and with \<open>max = 2147483647\<close> a factor of 2147483646
  sends \<open>- 4\<close> on the third, both below \<open>min = 0\<close>.
\<close>

theorem applied_counts_within_bounds_counterexample:
  "0 \<le>s min_s (command 10 0 ''step'' (- 1)) \<and>
   min_s (command 10 0 ''step'' (- 1)) \<le>s max_s (command 10 0 ''step'' (- 1)) \<and>
   replicaCounts (applied (actions (scale alwaysOk (command 10 0 ''step'' (- 1)) 2)) ! 1) =
     [Some (- 1), Some (- 1)] \<and>
   \<not> min_s (command 10 0 ''step'' (- 1)) \<le>s - 1 \<and>
   0 \<le>s min_s (command 2147483647 0 ''step'' 2147483646) \<and>
   min_s (command 2147483647 0 ''step'' 2147483646) \<le>s
     max_s (command 2147483647 0 ''step'' 2147483646) \<and>
   replicaCounts
     (applied (actions (scale alwaysOk (command 2147483647 0 ''step'' 2147483646) 3)) ! 2) =
     [Some (- 4), Some (- 4)] \<and>
   \<not> min_s (command 2147483647 0 ''step'' 2147483646) \<le>s - 4"
  by code_simp



text \<open>
  C3. Under the step pattern the scaling factor the scaler works with, from the entry
  of the loop on (no call of \<^verbatim>\<open>ResourceApply\<close> has been made then), is \<open>max / 10\<close> when
  the given factor is zero or at least \<open>max\<close>, and the given factor otherwise. The
  division is Go's: the quotient of the absolute values, with the sign of \<open>max\<close>. Every
  later count is computed from its predecessor with that factor; \<open>n\<close> iterations
  announce \<open>n\<close> counts (one, when the type assertion of line 60 fails in the first
  iteration).
\<close>

theorem step_factor_derived:
  assumes "patternName s = ''step''"
  shows "scalingFactor (client (scale api s n)) =
           (if scalingFactor s = 0 \<or> max_s s \<le>s scalingFactor s
            then int32_quo (max_s s) 10 else scalingFactor s) \<and>
         sint (int32_quo (max_s s) 10) =
           (if 0 \<le> sint (max_s s) then sint (max_s s) div 10
            else - ((- sint (max_s s)) div 10)) \<and>
         applied (actions (scale api s 0)) = [] \<and>
         length (announced (actions (scale api s n))) =
           (if typed (k8sClient s) then n else if n = 0 then 0 else 1) \<and>
         (if Suc i < length (announced (actions (scale api s n)))
          then announced (actions (scale api s n)) ! Suc i =
                 nextNumberOfResources (client (scale api s 0))
                   (announced (actions (scale api s n)) ! i)
          else True)"
proof -
  have f: "scalingFactor (client (scale api s n)) =
           (if scalingFactor s = 0 \<or> max_s s \<le>s scalingFactor s
            then int32_quo (max_s s) 10 else scalingFactor s)"
    using assms by (auto simp: scale_step updateScalingFactor_factor)
  have q: "sint (int32_quo (max_s s) 10) =
           (if 0 \<le> sint (max_s s) then sint (max_s s) div 10
            else - ((- sint (max_s s)) div 10))"
    by (simp only: sint_int32_quo_10 sdiv_10_eq)
  have a: "applied (actions (scale api s 0)) = []"
    using assms by (simp add: scale_step applied_append)
  have len: "length (announced (actions (scale api s n))) =
           (if typed (k8sClient s) then n else if n = 0 then 0 else 1)"
    by (rule step_length_announced [OF assms])
  have nx: "announced (actions (scale api s n)) ! Suc i =
                 nextNumberOfResources (client (scale api s 0))
                   (announced (actions (scale api s n)) ! i)"
    if "Suc i < length (announced (actions (scale api s n)))"
  proof -
    have t: "typed (k8sClient s)" and sn: "Suc i < n"
      using that len by (simp_all split: if_splits)
    have c0: "client (scale api s 0) = fst (updateScalingFactor s)"
      using assms by (simp add: scale_step)
    show ?thesis
      unfolding step_announced [OF assms t] c0 using sn by simp
  qed
  show ?thesis
    using f q a len nx by simp
qed

text \<open>
  C3 on three commands: a factor of 70 with \<open>max = 50\<close> becomes 5, an unset factor with
  \<open>max = 100\<close> becomes 10, and a factor of 7 with \<open>max = 100\<close> stays.
\<close>

theorem step_factor_derived_witness:
  "scalingFactor (client (scale alwaysOk (command 50 5 ''step'' 70) 3)) = 5 \<and>
   scalingFactor (client (scale alwaysOk (command 100 0 ''step'' 0) 3)) = 10 \<and>
   scalingFactor (client (scale alwaysOk (command 100 0 ''step'' 7) 3)) = 7 \<and>
   announced (actions (scale alwaysOk (command 50 5 ''step'' 70) 3)) ! 1 = 10"
proof -
  have p: "patternName (command mx mn ''step'' f) = ''step''" for mx mn f
    by (simp add: command_def commandOn_def)
  have e1: "(if scalingFactor (command 50 5 ''step'' 70) = 0 \<or>
                max_s (command 50 5 ''step'' 70) \<le>s scalingFactor (command 50 5 ''step'' 70)
            then int32_quo (max_s (command 50 5 ''step'' 70)) 10
            else scalingFactor (command 50 5 ''step'' 70)) = 5"
    by code_simp
  have e2: "(if scalingFactor (command 100 0 ''step'' 0) = 0 \<or>
                max_s (command 100 0 ''step'' 0) \<le>s scalingFactor (command 100 0 ''step'' 0)
            then int32_quo (max_s (command 100 0 ''step'' 0)) 10
            else scalingFactor (command 100 0 ''step'' 0)) = 10"
    by code_simp
  have e3: "(if scalingFactor (command 100 0 ''step'' 7) = 0 \<or>
                max_s (command 100 0 ''step'' 7) \<le>s scalingFactor (command 100 0 ''step'' 7)
            then int32_quo (max_s (command 100 0 ''step'' 7)) 10
            else scalingFactor (command 100 0 ''step'' 7)) = 7"
    by code_simp
  have e4: "nextNumberOfResources (client (scale alwaysOk (command 50 5 ''step'' 70) 0))
              (announced (actions (scale alwaysOk (command 50 5 ''step'' 70) 3)) ! 0) = 10"
    by code_simp
  have t: "typed (k8sClient (command 50 5 ''step'' 70))"
    by code_simp
  from step_factor_derived [OF p, of alwaysOk 50 5 70 3 0] e1 e4 t
  have "scalingFactor (client (scale alwaysOk (command 50 5 ''step'' 70) 3)) = 5"
    and "announced (actions (scale alwaysOk (command 50 5 ''step'' 70) 3)) ! 1 = 10"
    by simp_all
  moreover from step_factor_derived [OF p, of alwaysOk 100 0 0 3 0] e2
  have "scalingFactor (client (scale alwaysOk (command 100 0 ''step'' 0) 3)) = 10"
    by simp
  moreover from step_factor_derived [OF p, of alwaysOk 100 0 7 3 0] e3
  have "scalingFactor (client (scale alwaysOk (command 100 0 ''step'' 7) 3)) = 7"
    by simp
  ultimately show ?thesis by simp
qed




text \<open>
  C5, amended. On a target set in which every object whose kind is deployment is a
  \<^verbatim>\<open>*appsV1.Deployment\<close>, \<open>updateReplicas\<close> returns \<open>snapshots\<close> of it: copies of
  exactly the objects whose kind is deployment, file by file and in order, each with
  its replica field set to the count its argument points to (any count \<open>c\<close> held by
  \<^verbatim>\<open>numberOfResources\<close>, or \<open>max\<close>, or \<open>min\<close>); a file without deployments and every
  object that is not a deployment are absent from the result. On every other target set
  the type assertion of line 60 panics and nothing is returned.
\<close>

theorem updateReplicas_deployments_only:
  "snd (updateReplicas s l ptr) =
     (if typed (k8sClient s) then Inr (snapshots (load s l ptr) (k8sClient s))
      else Inl InterfaceConversion) \<and>
   load s (Some c) Addr_numberOfResources = Some c \<and>
   load s l Addr_max = Some (max_s s) \<and>
   load s l Addr_min = Some (min_s s) \<and>
   concat (map Objects (snapshots v (k8sClient s))) =
     map (\<lambda>ob. \<lparr>kind = kind ob, goType = goType ob, replicas = v, body = body ob\<rparr>)
       (deployments (k8sClient s)) \<and>
   list_all (\<lambda>ob. isDeployment ob \<and> replicas ob = v)
     (concat (map Objects (snapshots v (k8sClient s)))) \<and>
   filter (\<lambda>ob. \<not> isDeployment ob) (concat (map Objects (snapshots v (k8sClient s)))) = [] \<and>
   map FileName (snapshots v (k8sClient s)) =
     map FileName (filter (\<lambda>d. filter isDeployment (Objects d) \<noteq> []) (k8sClient s))"
proof -
  have res: "snd (updateReplicas s l ptr) =
     (if typed (k8sClient s) then Inr (snapshots (load s l ptr) (k8sClient s))
      else Inl InterfaceConversion)"
    by (simp add: updateReplicas_snapshots updateReplicas_untyped)
  have ld: "load s (Some c) Addr_numberOfResources = Some c"
    "load s l Addr_max = Some (max_s s)" "load s l Addr_min = Some (min_s s)"
    by (simp_all add: load_def)
  have objs: "concat (map Objects (snapshots v (k8sClient s))) =
     map (\<lambda>ob. \<lparr>kind = kind ob, goType = goType ob, replicas = v, body = body ob\<rparr>)
       (deployments (k8sClient s))"
    by (simp add: objects_snapshots snapshot_def [abs_def])
  have all: "list_all (\<lambda>ob. isDeployment ob \<and> replicas ob = v)
      (map (snapshot v) (deployments (k8sClient s)))"
    by (simp add: list_all_iff deployments_def replicas_snapshot)
  have none: "filter (\<lambda>ob. \<not> isDeployment ob)
      (map (snapshot v) (deployments (k8sClient s))) = []"
    by (simp add: filter_empty_conv deployments_def)
  have names: "map FileName (snapshots v (k8sClient s)) =
     map FileName (filter (\<lambda>d. filter isDeployment (Objects d) \<noteq> []) (k8sClient s))"
    by (simp add: snapshots_def)
  show ?thesis
    using res ld objs names all none by (simp only: objects_snapshots)
qed

text \<open>C5 on the sample target set, with count 7.\<close>

theorem updateReplicas_deployments_only_witness:
  "typed (k8sClient (command 20 1 ''burst'' 0)) \<and>
   snd (updateReplicas (command 20 1 ''burst'' 0) (Some 7) Addr_numberOfResources) =
     Inr [\<lparr>FileName = ''a.yaml'',
           Objects = [\<lparr>kind = ''Deployment'', goType = AppsV1_Deployment,
                        replicas = Some 7, body = ()\<rparr>]\<rparr>,
          \<lparr>FileName = ''c.yaml'',
           Objects = [\<lparr>kind = ''deployment'', goType = AppsV1_Deployment,
                        replicas = Some 7, body = ()\<rparr>]\<rparr>]"
proof -
  have t: "typed (k8sClient (command 20 1 ''burst'' 0))"
    by code_simp
  have r: "snapshots (Some 7) (k8sClient (command 20 1 ''burst'' 0)) =
         [\<lparr>FileName = ''a.yaml'',
           Objects = [\<lparr>kind = ''Deployment'', goType = AppsV1_Deployment,
                        replicas = Some 7, body = ()\<rparr>]\<rparr>,
          \<lparr>FileName = ''c.yaml'',
           Objects = [\<lparr>kind = ''deployment'', goType = AppsV1_Deployment,
                        replicas = Some 7, body = ()\<rparr>]\<rparr>]"
    by code_simp
  from updateReplicas_deployments_only
         [of "command 20 1 ''burst'' 0" "Some 7" Addr_numberOfResources 7 "Some 7"] t r
  show ?thesis by simp
qed

text \<open>
  C5 as stated, for every target set, fails on the sample target set extended by an
  object of kind \<open>Deployment\<close> that is not a \<^verbatim>\<open>*appsV1.Deployment\<close>: the call panics
  instead of returning the three objects of that kind.
\<close>

theorem updateReplicas_deployments_only_counterexample:
  "snd (updateReplicas (commandOn mixedSet 20 1 ''burst'' 0) (Some 7) Addr_numberOfResources) =
     Inl InterfaceConversion \<and>
   length (deployments (k8sClient (commandOn mixedSet 20 1 ''burst'' 0))) = 3"
  by code_simp

text \<open>
  C6, amended. With a pattern name other than \<open>burst\<close> and \<open>step\<close>, \<open>scale\<close> writes one
  line and leaves the process with code 2, for every number of iterations granted.
  That is one of two ways in which \<open>scale\<close> fails: with \<open>burst\<close> or \<open>step\<close> it stays in
  its loop when the type assertion of line 60 succeeds on the target set, and dies of a
  panic when it does not (under \<open>burst\<close> before the loop, under \<open>step\<close> in the first
  iteration). A run that has left its loop, either way, has made no call of
  \<^verbatim>\<open>ResourceApply\<close>.
\<close>

theorem invalid_pattern_exits:
  "status_of (scale api s n) =
     (if patternName s = ''burst''
      then (if typed (k8sClient s) then Looping else Panicked InterfaceConversion)
      else if patternName s = ''step''
      then (if typed (k8sClient s) \<or> n = 0 then Looping else Panicked InterfaceConversion)
      else Exit 2) \<and>
   (if patternName s = ''burst'' \<or> patternName s = ''step'' then True
    else scale api s n = (s, [Log (InvalidPattern (patternName s))], Exit 2, None)) \<and>
   (if status_of (scale api s n) = Looping then True
    else applied (actions (scale api s n)) = [])"
  using scale_status [of api s n] scale_left_no_apply [of api s n] scale_other [of s api n]
  by simp

text \<open>
  C6 on the pattern names \<open>foo\<close>, \<open>step\<close> and \<open>burst\<close>, and on \<open>burst\<close> with a target
  set on which the type assertion fails.
\<close>

theorem invalid_pattern_exits_witness:
  "scale flaky (command 20 1 ''foo'' 0) 5 =
     (command 20 1 ''foo'' 0, [Log (InvalidPattern ''foo'')], Exit 2, None) \<and>
   applied (actions (scale flaky (command 20 1 ''foo'' 0) 5)) = [] \<and>
   status_of (scale flaky (command 20 1 ''step'' 0) 5) = Looping \<and>
   status_of (scale flaky (command 20 1 ''burst'' 0) 5) = Looping \<and>
   status_of (scale flaky (commandOn mixedSet 20 1 ''burst'' 0) 5) =
     Panicked InterfaceConversion \<and>
   applied (actions (scale flaky (commandOn mixedSet 20 1 ''burst'' 0) 5)) = []"
proof -
  have p: "patternName (command mx mn pat f) = pat" for mx mn pat f
    by (simp add: command_def commandOn_def)
  have p': "patternName (commandOn rs mx mn pat f) = pat" for rs mx mn pat f
    by (simp add: commandOn_def)
  have t: "typed (k8sClient (command mx mn pat f))" for mx mn pat f
    by (simp add: command_def commandOn_def) code_simp
  have u: "\<not> typed (k8sClient (commandOn mixedSet 20 1 ''burst'' 0))"
    by code_simp
  from invalid_pattern_exits [of flaky "command 20 1 ''foo'' 0" 5]
    invalid_pattern_exits [of flaky "command 20 1 ''step'' 0" 5]
    invalid_pattern_exits [of flaky "command 20 1 ''burst'' 0" 5]
    invalid_pattern_exits [of flaky "commandOn mixedSet 20 1 ''burst'' 0" 5]
  show ?thesis by (simp add: p p' t u)
qed

text \<open>
  C6 as stated, with the invalid pattern name as the only failure, fails on a valid
  pattern name with a target set holding an object of kind \<open>Deployment\<close> that is not a
  \<^verbatim>\<open>*appsV1.Deployment\<close>: \<open>scale\<close> dies of the panic, after its first lines and before
  any call of \<^verbatim>\<open>ResourceApply\<close>.
\<close>

theorem invalid_pattern_exits_counterexample:
  "patternName (commandOn mixedSet 20 1 ''burst'' 0) = ''burst'' \<and>
   scale alwaysOk (commandOn mixedSet 20 1 ''burst'' 0) 3 =
     (client (scale alwaysOk (commandOn mixedSet 20 1 ''burst'' 0) 3),
      [Log (AutoScalePattern ''burst''), Log (StartingBurst 20 1 1000000000)],
      Panicked InterfaceConversion, None) \<and>
   patternName (commandOn mixedSet 100 0 ''step'' 0) = ''step'' \<and>
   status_of (scale alwaysOk (commandOn mixedSet 100 0 ''step'' 0) 3) =
     Panicked InterfaceConversion \<and>
   applied (actions (scale alwaysOk (commandOn mixedSet 100 0 ''step'' 0) 3)) = []"
  by code_simp

text \<open>
  C7. Whatever the remote side answers, under both patterns: a run is the run in which
  every call succeeds, with one line on standard error right after each failed call and
  nothing else added. The calls of \<^verbatim>\<open>ResourceApply\<close> and their arguments, the pauses,
  the client, the status and \<^verbatim>\<open>numberOfResources\<close> are the same, so a failed call is
  neither repeated nor followed by a longer pause, and the counts applied afterwards
  are those of the run without failures.
\<close>

theorem apply_failure_is_logged_and_ignored:
  "withoutFailures (actions (scale api s n)) = actions (scale alwaysOk s n) \<and>
   applied (actions (scale api s n)) = applied (actions (scale alwaysOk s n)) \<and>
   sleeps (actions (scale api s n)) = sleeps (actions (scale alwaysOk s n)) \<and>
   client (scale api s n) = client (scale alwaysOk s n) \<and>
   status_of (scale api s n) = status_of (scale alwaysOk s n) \<and>
   local_of (scale api s n) = local_of (scale alwaysOk s n) \<and>
   outcomes (actions (scale api s n)) =
     map (\<lambda>j. map_option (\<lambda>m. ''Error scaling deployment: '' @ m) (api j))
       [0..<length (applied (actions (scale api s n)))] \<and>
   failures (actions (scale api s n)) =
     map (\<lambda>m. ''Error scaling deployment: '' @ m)
       (List.map_filter api [0..<length (applied (actions (scale api s n)))])"
proof -
  have a: "applied (actions (scale api s n)) = applied (actions (scale alwaysOk s n))"
    using arg_cong [OF scale_withoutFailures [of api s n], of applied]
    by (simp only: applied_withoutFailures)
  have b: "sleeps (actions (scale api s n)) = sleeps (actions (scale alwaysOk s n))"
    using arg_cong [OF scale_withoutFailures [of api s n], of sleeps]
    by (simp only: sleeps_withoutFailures)
  show ?thesis
    using a b scale_withoutFailures [of api s n] scale_rest_api [of api s n]
      scale_outcomes [of api s n] scale_failures [of api s n]
    by simp
qed

text \<open>
  C7 with a remote side whose second call fails, for two iterations of the burst
  pattern and three of the step pattern.
\<close>

theorem apply_failure_is_logged_and_ignored_witness:
  "outcomes (actions (scale flaky (command 20 1 ''burst'' 0) 2)) =
     [None, Some ''Error scaling deployment: timeout'', None, None] \<and>
   map replicaCounts (applied (actions (scale flaky (command 20 1 ''burst'' 0) 2))) =
     [[Some 20, Some 20], [Some 1, Some 1], [Some 20, Some 20], [Some 1, Some 1]] \<and>
   outcomes (actions (scale flaky (command 100 0 ''step'' 0) 3)) =
     [None, Some ''Error scaling deployment: timeout'', None] \<and>
   map replicaCounts (applied (actions (scale flaky (command 100 0 ''step'' 0) 3))) =
     [[Some 0, Some 0], [Some 10, Some 10], [Some 20, Some 20]]"
proof -
  have b1: "length (applied (actions (scale alwaysOk (command 20 1 ''burst'' 0) 2))) = 4"
    by code_simp
  have b2: "map replicaCounts (applied (actions (scale alwaysOk (command 20 1 ''burst'' 0) 2))) =
     [[Some 20, Some 20], [Some 1, Some 1], [Some 20, Some 20], [Some 1, Some 1]]"
    by code_simp
  have s1: "length (applied (actions (scale alwaysOk (command 100 0 ''step'' 0) 3))) = 3"
    by code_simp
  have s2: "map replicaCounts (applied (actions (scale alwaysOk (command 100 0 ''step'' 0) 3))) =
     [[Some 0, Some 0], [Some 10, Some 10], [Some 20, Some 20]]"
    by code_simp
  have f4: "map (\<lambda>j. map_option (\<lambda>m. ''Error scaling deployment: '' @ m) (flaky j)) [0..<4] =
     [None, Some ''Error scaling deployment: timeout'', None, None]"
    by code_simp
  have f3: "map (\<lambda>j. map_option (\<lambda>m. ''Error scaling deployment: '' @ m) (flaky j)) [0..<3] =
     [None, Some ''Error scaling deployment: timeout'', None]"
    by code_simp
  from apply_failure_is_logged_and_ignored [of flaky "command 20 1 ''burst'' 0" 2] b1 b2 f4
  have "outcomes (actions (scale flaky (command 20 1 ''burst'' 0) 2)) =
     [None, Some ''Error scaling deployment: timeout'', None, None] \<and>
   map replicaCounts (applied (actions (scale flaky (command 20 1 ''burst'' 0) 2))) =
     [[Some 20, Some 20], [Some 1, Some 1], [Some 20, Some 20], [Some 1, Some 1]]"
    by simp
  moreover
  from apply_failure_is_logged_and_ignored [of flaky "command 100 0 ''step'' 0" 3] s1 s2 f3
  have "outcomes (actions (scale flaky (command 100 0 ''step'' 0) 3)) =
     [None, Some ''Error scaling deployment: timeout'', None] \<and>
   map replicaCounts (applied (actions (scale flaky (command 100 0 ''step'' 0) 3))) =
     [[Some 0, Some 0], [Some 10, Some 10], [Some 20, Some 20]]"
    by simp
  ultimately show ?thesis by simp
qed

text \<open>
  C8, amended. \<open>updateReplicas\<close>, a whole run of any length and each single iteration
  of a loop leave the target set of the client as it was except for the replica field
  of its deployments: the same files with the same names, the same objects in the same
  order with the same kind, type and other fields, and every object that is not a
  deployment untouched. A call of \<open>updateReplicas\<close> that does not panic points the
  replica field of every deployment to the variable it was given. Under the step
  pattern each iteration does so before its call of \<^verbatim>\<open>ResourceApply\<close>: at that call
  the deployments of the client read the count applied, and after line 129 the next
  one. Under the burst pattern it is done twice before the loop and never inside: the
  deployments of the client read \<open>min\<close> throughout, also while \<open>max\<close> is applied.
\<close>

theorem target_set_frame:
  "sameButReplicas (k8sClient s) (k8sClient (fst (updateReplicas s l ptr))) \<and>
   sameButReplicas (k8sClient s) (k8sClient (client (scale api s n))) \<and>
   sameButReplicas (k8sClient (client (scale api s n)))
     (k8sClient (client (scale api s (Suc n)))) \<and>
   (if typed (k8sClient s)
    then map replicas (deployments (k8sClient (fst (updateReplicas s l ptr)))) =
           replicate (length (deployments (k8sClient s))) (Some (At ptr)) \<and>
         heldReplicas (fst (updateReplicas s l ptr)) l =
           replicate (length (deployments (k8sClient s))) (load s l ptr)
    else True) \<and>
   (if patternName s = ''step'' \<and> typed (k8sClient s)
    then fst (updateReplicas (client (scale api s n)) (local_of (scale api s n))
                Addr_numberOfResources) =
           client (scale api s (Suc n)) \<and>
         heldReplicas (client (scale api s (Suc n))) (local_of (scale api s n)) =
           replicate (length (deployments (k8sClient s)))
             (Some (announced (actions (scale api s (Suc n))) ! n)) \<and>
         heldReplicas (client (scale api s (Suc n))) (local_of (scale api s (Suc n))) =
           replicate (length (deployments (k8sClient s)))
             (Some (nextNumberOfResources (client (scale api s 0))
                      (announced (actions (scale api s (Suc n))) ! n)))
    else True) \<and>
   (if patternName s = ''burst'' \<and> typed (k8sClient s)
    then fst (updateReplicas (fst (updateReplicas s None Addr_max)) None Addr_min) =
           client (scale api s n) \<and>
         heldReplicas (client (scale api s n)) (local_of (scale api s n)) =
           replicate (length (deployments (k8sClient s))) (Some (min_s s))
    else True)"
proof -
  have a: "sameButReplicas (k8sClient s) (k8sClient (fst (updateReplicas s l ptr)))"
    by (rule sameButReplicas_erase) (rule eraseReplicas_updateReplicas)
  have b: "sameButReplicas (k8sClient s) (k8sClient (client (scale api s n)))"
    by (rule sameButReplicas_erase) (rule scale_eraseReplicas)
  have c: "sameButReplicas (k8sClient (client (scale api s n)))
     (k8sClient (client (scale api s (Suc n))))"
    by (rule sameButReplicas_erase) (simp only: scale_eraseReplicas)
  have d: "map replicas (deployments (k8sClient (fst (updateReplicas s l ptr)))) =
           replicate (length (deployments (k8sClient s))) (Some (At ptr)) \<and>
         heldReplicas (fst (updateReplicas s l ptr)) l =
           replicate (length (deployments (k8sClient s))) (load s l ptr)"
    if "typed (k8sClient s)"
  proof -
    have "map replicas (map (\<lambda>ob. ob\<lparr>replicas := Some (At ptr)\<rparr>) obs) =
          replicate (length obs) (Some (At ptr))" for obs :: "(replicas_ptr, 'a) object list"
      by (induction obs) simp_all
    then show ?thesis
      using that by (simp add: updateReplicas_typed deployments_pointTo heldReplicas_pointTo)
  qed
  have e: "fst (updateReplicas (client (scale api s n)) (local_of (scale api s n))
                Addr_numberOfResources) =
           client (scale api s (Suc n)) \<and>
         heldReplicas (client (scale api s (Suc n))) (local_of (scale api s n)) =
           replicate (length (deployments (k8sClient s)))
             (Some (announced (actions (scale api s (Suc n))) ! n)) \<and>
         heldReplicas (client (scale api s (Suc n))) (local_of (scale api s (Suc n))) =
           replicate (length (deployments (k8sClient s)))
             (Some (nextNumberOfResources (client (scale api s 0))
                      (announced (actions (scale api s (Suc n))) ! n)))"
    if "patternName s = ''step''" and "typed (k8sClient s)"
  proof -
    have c0: "client (scale api s 0) = fst (updateScalingFactor s)"
      using that(1) by (simp add: scale_step)
    have ann: "announced (actions (scale api s (Suc n))) ! n =
        (nextNumberOfResources (fst (updateScalingFactor s)) ^^ n) (min_s s)"
      unfolding step_announced [OF that] by (simp del: upt_Suc)
    have held: "heldReplicas (client (scale api s (Suc n))) (Some v) =
        replicate (length (deployments (k8sClient s))) (Some v)" for v
      by (simp only: step_client(1) [OF that]) (simp add: heldReplicas_pointTo load_def)
    have u: "fst (updateReplicas (client (scale api s n)) (local_of (scale api s n))
                Addr_numberOfResources) =
           client (scale api s (Suc n))"
      by (rule step_client_update [OF that, symmetric])
    have h1: "heldReplicas (client (scale api s (Suc n))) (local_of (scale api s n)) =
           replicate (length (deployments (k8sClient s)))
             (Some (announced (actions (scale api s (Suc n))) ! n))"
      by (simp only: step_client(2) [OF that] held ann)
    have "local_of (scale api s (Suc n)) =
        Some (nextNumberOfResources (client (scale api s 0))
                (announced (actions (scale api s (Suc n))) ! n))"
      by (simp only: step_client(2) [OF that] ann c0) simp
    then have h2: "heldReplicas (client (scale api s (Suc n))) (local_of (scale api s (Suc n))) =
           replicate (length (deployments (k8sClient s)))
             (Some (nextNumberOfResources (client (scale api s 0))
                      (announced (actions (scale api s (Suc n))) ! n)))"
      by (simp only: held)
    from u h1 h2 show ?thesis by blast
  qed
  have f: "fst (updateReplicas (fst (updateReplicas s None Addr_max)) None Addr_min) =
           client (scale api s n) \<and>
         heldReplicas (client (scale api s n)) (local_of (scale api s n)) =
           replicate (length (deployments (k8sClient s))) (Some (min_s s))"
    if "patternName s = ''burst''" and "typed (k8sClient s)"
    using that by (simp add: scale_burst_typed updateReplicas_typed heldReplicas_pointTo load_def)
  from a b c d e f show ?thesis
    unfolding if_bool_eq_conj by blast
qed

text \<open>
  C8 after three iterations of the step pattern on the sample target set: the two
  deployments point to \<^verbatim>\<open>numberOfResources\<close>, nothing else has changed; they read 20
  when the third call is made and 30 at the end of the third iteration.
\<close>

theorem target_set_frame_witness:
  "sameButReplicas sampleSet
     (k8sClient (client (scale flaky (command 100 0 ''step'' 0) 3))) \<and>
   k8sClient (client (scale flaky (command 100 0 ''step'' 0) 3)) =
     [\<lparr>FileName = ''a.yaml'',
       Objects = [\<lparr>kind = ''Deployment'', goType = AppsV1_Deployment,
                    replicas = Some (At Addr_numberOfResources), body = ()\<rparr>,
                  \<lparr>kind = ''Service'', goType = Other_type, replicas = None, body = ()\<rparr>]\<rparr>,
      \<lparr>FileName = ''b.yaml'',
       Objects = [\<lparr>kind = ''ConfigMap'', goType = Other_type, replicas = None, body = ()\<rparr>]\<rparr>,
      \<lparr>FileName = ''c.yaml'',
       Objects = [\<lparr>kind = ''deployment'', goType = AppsV1_Deployment,
                    replicas = Some (At Addr_numberOfResources), body = ()\<rparr>]\<rparr>] \<and>
   heldReplicas (client (scale flaky (command 100 0 ''step'' 0) 3))
     (local_of (scale flaky (command 100 0 ''step'' 0) 2)) = [Some 20, Some 20] \<and>
   heldReplicas (client (scale flaky (command 100 0 ''step'' 0) 3))
     (local_of (scale flaky (command 100 0 ''step'' 0) 3)) = [Some 30, Some 30]"
proof -
  have k: "k8sClient (command 100 0 ''step'' 0) = sampleSet"
    and p: "patternName (command 100 0 ''step'' 0) = ''step''"
    by (simp_all add: command_def commandOn_def)
  have t: "typed sampleSet"
    by code_simp
  have e: "k8sClient (client (scale flaky (command 100 0 ''step'' 0) 3)) =
     [\<lparr>FileName = ''a.yaml'',
       Objects = [\<lparr>kind = ''Deployment'', goType = AppsV1_Deployment,
                    replicas = Some (At Addr_numberOfResources), body = ()\<rparr>,
                  \<lparr>kind = ''Service'', goType = Other_type, replicas = None, body = ()\<rparr>]\<rparr>,
      \<lparr>FileName = ''b.yaml'',
       Objects = [\<lparr>kind = ''ConfigMap'', goType = Other_type, replicas = None, body = ()\<rparr>]\<rparr>,
      \<lparr>FileName = ''c.yaml'',
       Objects = [\<lparr>kind = ''deployment'', goType = AppsV1_Deployment,
                    replicas = Some (At Addr_numberOfResources), body = ()\<rparr>]\<rparr>]"
    by code_simp
  have d: "length (deployments sampleSet) = 2"
    by code_simp
  have r: "replicate 2 x = [x, x]" for x :: "int32 option"
    by (simp add: numeral_2_eq_2)
  have a2: "announced (actions (scale flaky (command 100 0 ''step'' 0) 3)) ! 2 = 20"
    by code_simp
  have n2: "nextNumberOfResources (client (scale flaky (command 100 0 ''step'' 0) 0)) 20 = 30"
    by code_simp
  from target_set_frame [of "command 100 0 ''step'' 0" None Addr_max flaky 3]
  have b: "sameButReplicas sampleSet
     (k8sClient (client (scale flaky (command 100 0 ''step'' 0) 3)))"
    by (simp add: k)
  from target_set_frame [of "command 100 0 ''step'' 0" None Addr_max flaky 2]
  have h: "heldReplicas (client (scale flaky (command 100 0 ''step'' 0) 3))
      (local_of (scale flaky (command 100 0 ''step'' 0) 2)) = [Some 20, Some 20] \<and>
    heldReplicas (client (scale flaky (command 100 0 ''step'' 0) 3))
      (local_of (scale flaky (command 100 0 ''step'' 0) 3)) = [Some 30, Some 30]"
    by (simp add: k p t d r a2 n2)
  from b e h show ?thesis by (simp only: simp_thms)
qed

text \<open>
  C8 as stated, with the replica field rewritten before each call of
  \<^verbatim>\<open>ResourceApply\<close>, fails under the burst pattern: the first iteration leaves the
  client as it was on entry of the loop, its deployments pointing to \<^verbatim>\<open>s.min\<close> and
  reading 1, while the first call carries 20.
\<close>

theorem target_set_frame_counterexample:
  "patternName (command 20 1 ''burst'' 0) = ''burst'' \<and>
   client (scale alwaysOk (command 20 1 ''burst'' 0) 1) =
     client (scale alwaysOk (command 20 1 ''burst'' 0) 0) \<and>
   heldReplicas (client (scale alwaysOk (command 20 1 ''burst'' 0) 0))
     (local_of (scale alwaysOk (command 20 1 ''burst'' 0) 0)) = [Some 1, Some 1] \<and>
   map replicaCounts (applied (actions (scale alwaysOk (command 20 1 ''burst'' 0) 1))) =
     [[Some 20, Some 20], [Some 1, Some 1]] \<and>
   map replicas (deployments (k8sClient (client (scale alwaysOk (command 20 1 ''burst'' 0) 1)))) =
     [Some (At Addr_min), Some (At Addr_min)]"
  by code_simp




text \<open>
  C10, amended. Under the step pattern with the factor unset, \<open>0 < max < 10\<close> and
  \<open>min \<le> max\<close>, the derived factor is 0 and every call of \<^verbatim>\<open>ResourceApply\<close>, on
  every cycle, carries \<open>min\<close>.
\<close>

theorem step_small_max_stays_at_min:
  assumes "patternName s = ''step''"
    and "scalingFactor s = 0"
    and "0 <s max_s s" and "max_s s <s 10"
    and "min_s s \<le>s max_s s"
    and "i < length (applied (actions (scale api s n)))"
  shows "scalingFactor (client (scale api s n)) = 0 \<and>
         announced (actions (scale api s n)) ! i = min_s s \<and>
         Inr (applied (actions (scale api s n)) ! i) =
           snd (updateReplicas s (Some (min_s s)) Addr_numberOfResources) \<and>
         replicaCounts (applied (actions (scale api s n)) ! i) =
           replicate (length (deployments (k8sClient s))) (Some (min_s s)) \<and>
         length (applied (actions (scale api s n))) = (if typed (k8sClient s) then n else 0)"
proof -
  have len: "length (applied (actions (scale api s n))) = (if typed (k8sClient s) then n else 0)"
    by (rule step_length_applied [OF assms(1)])
  have t: "typed (k8sClient s)" and i: "i < n"
    using assms(6) len by (simp_all split: if_splits)
  have "sint (int32_quo (max_s s) 10) = 0"
    using assms(3,4) by (simp add: sint_int32_quo_10 sdiv_10_eq word_sless_alt)
  then have q: "int32_quo (max_s s) 10 = 0"
    by (simp only: signed_eq_0_iff)
  have f: "scalingFactor (fst (updateScalingFactor s)) = 0"
    using assms(2) q by (simp add: updateScalingFactor_factor)
  have cf: "scalingFactor (client (scale api s n)) = 0"
    using f by (simp add: scale_step [OF assms(1)])
  have ann: "announced (actions (scale api s n)) ! i = min_s s"
    by (rule step_zero_factor [OF assms(1) t f assms(5) i])
  have app: "Inr (applied (actions (scale api s n)) ! i) =
           snd (updateReplicas s (Some (min_s s)) Addr_numberOfResources)"
    using step_applied_announced [OF assms(1) t i, of api] by (simp only: ann)
  have rc: "replicaCounts (applied (actions (scale api s n)) ! i) =
           replicate (length (deployments (k8sClient s))) (Some (min_s s))"
    using step_replicaCounts [OF assms(1) t i, of api] by (simp only: ann)
  from cf ann app rc len show ?thesis by blast
qed

text \<open>C10 for \<open>max = 5\<close> and \<open>min = 2\<close>: the fortieth call still carries 2.\<close>

theorem step_small_max_stays_at_min_witness:
  "scalingFactor (client (scale flaky (command 5 2 ''step'' 0) 40)) = 0 \<and>
   announced (actions (scale flaky (command 5 2 ''step'' 0) 40)) ! 39 = 2 \<and>
   replicaCounts (applied (actions (scale flaky (command 5 2 ''step'' 0) 40)) ! 39) =
     [Some 2, Some 2]"
proof -
  have p: "patternName (command 5 2 ''step'' 0) = ''step''"
    and z: "scalingFactor (command 5 2 ''step'' 0) = 0"
    and m: "min_s (command 5 2 ''step'' 0) = 2"
    by (simp_all add: command_def commandOn_def)
  have lo: "0 <s max_s (command 5 2 ''step'' 0)"
    and hi: "max_s (command 5 2 ''step'' 0) <s 10"
    and le: "min_s (command 5 2 ''step'' 0) \<le>s max_s (command 5 2 ''step'' 0)"
    by code_simp+
  have d: "length (deployments (k8sClient (command 5 2 ''step'' 0))) = 2"
    by code_simp
  have r: "replicate 2 x = [x, x]" for x :: "int32 option"
    by (simp add: numeral_2_eq_2)
  have i: "39 < length (applied (actions (scale flaky (command 5 2 ''step'' 0) 40)))"
    by code_simp
  from step_small_max_stays_at_min [OF p z lo hi le i]
  show ?thesis
    by (simp add: m d r)
qed

text \<open>
  C10 as stated, without \<open>min \<le> max\<close>, fails for \<open>max = 5\<close> and \<open>min = 7\<close>: the derived
  factor is 0, the first call carries 7 and every later one 5, the clamp of line 130
  having moved the count to \<open>max\<close>.
\<close>

theorem step_small_max_stays_at_min_counterexample:
  "patternName (command 5 7 ''step'' 0) = ''step'' \<and>
   scalingFactor (command 5 7 ''step'' 0) = 0 \<and>
   0 <s max_s (command 5 7 ''step'' 0) \<and>
   max_s (command 5 7 ''step'' 0) <s 10 \<and>
   min_s (command 5 7 ''step'' 0) = 7 \<and>
   scalingFactor (client (scale alwaysOk (command 5 7 ''step'' 0) 4)) = 0 \<and>
   announced (actions (scale alwaysOk (command 5 7 ''step'' 0) 4)) = [7, 5, 5, 5] \<and>
   map replicaCounts (applied (actions (scale alwaysOk (command 5 7 ''step'' 0) 4))) =
     [[Some 7, Some 7], [Some 5, Some 5], [Some 5, Some 5], [Some 5, Some 5]]"
  by code_simp

end
